theory Spec2Isabelle
  imports Complex_Main "HOL-Library.AList" "HOL-Library.Multiset" "HOL-Library.Product_Lexorder"
begin

section \<open>Python text primitives\<close>

text \<open>
  Text is a list of characters. A character stands for one code point of a Python
  \<open>str\<close> in the range 0 to 255; code points beyond that range are outside the model.
\<close>

definition isspace :: "char \<Rightarrow> bool" where
  "isspace c = (c \<in> set [CHR 0x09, CHR 0x0A, CHR 0x0B, CHR 0x0C, CHR 0x0D,
                          CHR 0x1C, CHR 0x1D, CHR 0x1E, CHR 0x1F, CHR 0x20,
                          CHR 0x85, CHR 0xA0])"

definition lower_char :: "char \<Rightarrow> char" where
  "lower_char c = (let n = (of_char c :: nat) in
     if (65 \<le> n \<and> n \<le> 90) \<or> (192 \<le> n \<and> n \<le> 222 \<and> n \<noteq> 215)
     then char_of (n + 32) else c)"

definition lower :: "string \<Rightarrow> string" where
  "lower s = map lower_char s"

definition strip :: "string \<Rightarrow> string" where
  "strip s = rev (dropWhile isspace (rev (dropWhile isspace s)))"

fun starts_with :: "string \<Rightarrow> string \<Rightarrow> bool" where
  "starts_with [] s = True"
| "starts_with (a # p) [] = False"
| "starts_with (a # p) (b # s) = (a = b \<and> starts_with p s)"

text \<open>\<open>py_in p s\<close> is the Python test \<open>p in s\<close> on two strings.\<close>

fun py_in :: "string \<Rightarrow> string \<Rightarrow> bool" where
  "py_in p [] = (p = [])"
| "py_in p (c # s) = (starts_with p (c # s) \<or> py_in p s)"

text \<open>\<open>s.replace(p, "")\<close> for a pattern \<open>p\<close>: occurrences are removed left to right.\<close>

function replace_with_empty :: "string \<Rightarrow> string \<Rightarrow> string" where
  "replace_with_empty p [] = []"
| "replace_with_empty p (c # s) =
     (if p \<noteq> [] \<and> starts_with p (c # s)
      then replace_with_empty p (drop (length p) (c # s))
      else c # replace_with_empty p s)"
  by pat_completeness auto
termination
  by (relation "measure (\<lambda>(p, s). length s)") auto

text \<open>\<open>s.split(d)\<close> for a one-character separator: empty parts are kept.\<close>

fun split_on :: "char \<Rightarrow> string \<Rightarrow> string list" where
  "split_on d [] = [[]]"
| "split_on d (c # s) =
     (if c = d then [] # split_on d s
      else (case split_on d s of [] \<Rightarrow> [[c]] | w # ws \<Rightarrow> (c # w) # ws))"

text \<open>\<open>s.split()\<close>: the maximal runs of non-whitespace characters.\<close>

fun split_ws :: "string \<Rightarrow> string \<Rightarrow> string list" where
  "split_ws cur [] = (if cur = [] then [] else [cur])"
| "split_ws cur (c # s) =
     (if isspace c then (if cur = [] then split_ws [] s else cur # split_ws [] s)
      else split_ws (cur @ [c]) s)"

definition py_split :: "string \<Rightarrow> string list" where
  "py_split s = split_ws [] s"

section \<open>The environment: library functions and constants the source imports\<close>

datatype exn = AttributeError | TypeError | ValueError | IndexError | ParserError

text \<open>A cell is a value that is either a Python string or \<open>None\<close>.\<close>

type_synonym cell = "string option"

text \<open>
  A row as \<open>csv.DictReader\<close> yields it: column name to cell. A row shorter than the
  header has \<open>None\<close> cells for the columns it lacks.
\<close>

type_synonym csv_row = "(string \<times> cell) list"

text \<open>
  A Python \<open>float\<close>: a finite value, one of the two infinities, or nan.
\<close>

datatype pyfloat = Finite rat | PosInf | NegInf | NaN

text \<open>The comparison \<open>a <= b\<close> of two floats: false whenever one of them is nan.\<close>

fun py_le :: "pyfloat \<Rightarrow> pyfloat \<Rightarrow> bool" where
  "py_le NaN b = False"
| "py_le a NaN = False"
| "py_le NegInf b = True"
| "py_le a PosInf = True"
| "py_le (Finite a) (Finite b) = (a \<le> b)"
| "py_le PosInf b = False"
| "py_le (Finite a) NegInf = False"

text \<open>
  The position of a float that is not nan in the order of the floats, as a key in a
  linear order.
\<close>

fun float_key :: "pyfloat \<Rightarrow> int \<times> rat" where
  "float_key NegInf = (0, 0)"
| "float_key (Finite a) = (1, a)"
| "float_key PosInf = (2, 0)"
| "float_key NaN = (3, 0)"

record env =
  PROXIES :: "string list"
  py_float :: "string \<Rightarrow> pyfloat option"
  sort_with_nan :: "pyfloat list \<Rightarrow> nat list"

text \<open>
  \<open>PROXIES\<close> is the fallback list of \<open>constants.proxy\<close>. \<open>py_float s\<close> is the value of
  \<open>float(s)\<close>, and \<open>None\<close> where \<open>float(s)\<close> raises \<open>ValueError\<close>. \<open>sort_with_nan ks\<close>
  is the order in which \<open>list.sort\<close> leaves items with the keys \<open>ks\<close> when one of the
  keys is nan, as the list of the items' former positions: the language fixes the result
  of a sort only for keys that can all be compared.
\<close>

section \<open>Proxy records and the catalogue\<close>

record proxy_entry =
  url :: string
  ip :: string
  port :: string
  country :: cell
  city :: cell
  isp :: cell
  response_time_ms :: pyfloat
  status :: string
  tested_at :: cell
  row :: "csv_row option"

text \<open>\<open>row.get(k, d)\<close>\<close>

definition row_get :: "csv_row \<Rightarrow> string \<Rightarrow> cell \<Rightarrow> cell" where
  "row_get r k d = (case map_of r k of None \<Rightarrow> d | Some v \<Rightarrow> v)"

text \<open>\<open>row.get(k, d).strip()\<close>: a \<open>None\<close> cell has no \<open>strip\<close>.\<close>

definition get_strip :: "csv_row \<Rightarrow> string \<Rightarrow> string \<Rightarrow> exn + string" where
  "get_strip r k d = (case row_get r k (Some d) of None \<Rightarrow> Inl AttributeError
                                                 | Some v \<Rightarrow> Inr (strip v))"

text \<open>\<open>float(row.get('response_time_ms', 0))\<close>\<close>

definition get_response_time :: "env \<Rightarrow> csv_row \<Rightarrow> exn + pyfloat" where
  "get_response_time e r =
     (case map_of r ''response_time_ms'' of
        None \<Rightarrow> Inr (Finite 0)
      | Some None \<Rightarrow> Inl TypeError
      | Some (Some v) \<Rightarrow> (case py_float e v of None \<Rightarrow> Inl ValueError | Some x \<Rightarrow> Inr x))"

text \<open>The body of the loop over the rows in \<open>_load_proxies\<close>, for one row.\<close>

definition read_row :: "env \<Rightarrow> csv_row \<Rightarrow> exn + proxy_entry option" where
  "read_row e r =
     (case get_strip r ''ip'' '''' of Inl x \<Rightarrow> Inl x | Inr ip_v \<Rightarrow>
      case get_strip r ''port'' '''' of Inl x \<Rightarrow> Inl x | Inr port_v \<Rightarrow>
      case get_strip r ''status'' ''working'' of Inl x \<Rightarrow> Inl x | Inr status_v \<Rightarrow>
      if ip_v \<noteq> [] \<and> port_v \<noteq> [] \<and> status_v = ''working''
      then (case get_response_time e r of Inl x \<Rightarrow> Inl x | Inr t \<Rightarrow>
              Inr (Some \<lparr>url = ''socks5://'' @ ip_v @ '':'' @ port_v,
                         ip = ip_v, port = port_v,
                         country = row_get r ''country'' (Some ''Unknown''),
                         city = row_get r ''city'' (Some ''Unknown''),
                         isp = row_get r ''isp'' (Some ''Unknown''),
                         response_time_ms = t,
                         status = status_v,
                         tested_at = row_get r ''tested_at'' (Some ''''),
                         row = Some r\<rparr>))
      else Inr None)"

fun read_rows :: "env \<Rightarrow> csv_row list \<Rightarrow> exn + proxy_entry list" where
  "read_rows e [] = Inr []"
| "read_rows e (r # rs) =
     (case read_row e r of
        Inl x \<Rightarrow> Inl x
      | Inr None \<Rightarrow> read_rows e rs
      | Inr (Some p) \<Rightarrow> (case read_rows e rs of Inl x \<Rightarrow> Inl x | Inr ps \<Rightarrow> Inr (p # ps)))"

definition fallback_entry :: "string \<Rightarrow> proxy_entry option" where
  "fallback_entry proxy_url =
     (let parts = split_on CHR '':'' (replace_with_empty ''socks5://'' proxy_url)
      in if length parts = 2
         then Some \<lparr>url = proxy_url, ip = parts ! 0, port = parts ! 1,
                    country = Some ''Unknown'', city = Some ''Unknown'',
                    isp = Some ''Unknown'', response_time_ms = Finite 0,
                    status = ''working'', tested_at = Some '''', row = None\<rparr>
         else None)"

definition load_fallback_proxies :: "env \<Rightarrow> proxy_entry list" where
  "load_fallback_proxies e = List.map_filter fallback_entry (PROXIES e)"

text \<open>
  \<open>proxy_data.sort(key=lambda x: x['response_time_ms'])\<close>. Without a nan key the sort
  is the stable sort by key, as \<open>sort_key\<close> is; with a nan key it is what the library
  leaves.
\<close>

definition sort_by_response_time :: "env \<Rightarrow> proxy_entry list \<Rightarrow> proxy_entry list" where
  "sort_by_response_time e ps =
     (if NaN \<in> set (map response_time_ms ps)
      then map (\<lambda>i. ps ! i)
             (filter (\<lambda>i. i < length ps) (sort_with_nan e (map response_time_ms ps)))
      else sort_key (\<lambda>p. float_key (response_time_ms p)) ps)"

text \<open>
  \<open>_load_proxies\<close>. The argument is the catalogue file: \<open>None\<close> when the path does not
  exist, otherwise its rows. Every exception raised while reading is caught and gives
  the fallback list.
\<close>

definition load_proxies :: "env \<Rightarrow> csv_row list option \<Rightarrow> proxy_entry list" where
  "load_proxies e f =
     (case f of
        None \<Rightarrow> load_fallback_proxies e
      | Some rows \<Rightarrow>
          (case read_rows e rows of
             Inl x \<Rightarrow> load_fallback_proxies e
           | Inr proxy_data \<Rightarrow>
               if proxy_data = [] then load_fallback_proxies e
               else sort_by_response_time e proxy_data))"

text \<open>A list of records in ascending order of latency, by the comparison of floats.\<close>

definition ascending_latency :: "proxy_entry list \<Rightarrow> bool" where
  "ascending_latency ps =
     sorted_wrt (\<lambda>p q. py_le (response_time_ms p) (response_time_ms q)) ps"

text \<open>
  The condition under which \<open>_load_proxies\<close> keeps a row, and the condition under which
  reading a row raises nothing.
\<close>

definition eligible :: "csv_row \<Rightarrow> bool" where
  "eligible r =
     (case (row_get r ''ip'' (Some ''''), row_get r ''port'' (Some ''''),
            row_get r ''status'' (Some ''working'')) of
        (Some i, Some p, Some s) \<Rightarrow> strip i \<noteq> [] \<and> strip p \<noteq> [] \<and> strip s = ''working''
      | _ \<Rightarrow> False)"

definition row_readable :: "env \<Rightarrow> csv_row \<Rightarrow> bool" where
  "row_readable e r =
     (row_get r ''ip'' (Some '''') \<noteq> None \<and> row_get r ''port'' (Some '''') \<noteq> None \<and>
      row_get r ''status'' (Some ''working'') \<noteq> None \<and>
      (eligible r \<longrightarrow> \<not> isl (get_response_time e r)))"

section \<open>The proxy manager\<close>

record usage_stats =
  total_requests :: int
  successful_requests :: int
  failed_requests :: int
  proxies_marked_bad :: int

text \<open>
  The fields of a \<open>ProxyManager\<close>, together with the two files it reads and writes:
  \<open>csv_file\<close> is the catalogue at \<open>csv_path\<close> and \<open>csv_backup\<close> the file at
  \<open>csv_path.backup\<close> (\<open>None\<close>: the file does not exist). File operations succeed.
\<close>

record manager =
  max_retries :: int
  min_proxies_threshold :: int
  proxy_data :: "proxy_entry list"
  proxies :: "string list"
  bad_proxies :: "string set"
  using_csv :: bool
  stats :: usage_stats
  csv_file :: "csv_row list option"
  csv_backup :: "csv_row list option"

text \<open>\<open>ProxyManager.__init__\<close>, given the two files as they are found.\<close>

definition init :: "env \<Rightarrow> csv_row list option \<Rightarrow> csv_row list option \<Rightarrow> int \<Rightarrow> int \<Rightarrow> manager" where
  "init e file backup retries threshold =
     (let pd = load_proxies e file
      in \<lparr>max_retries = retries, min_proxies_threshold = threshold,
          proxy_data = pd, proxies = map url pd, bad_proxies = {},
          using_csv = (file \<noteq> None),
          stats = \<lparr>total_requests = 0, successful_requests = 0,
                    failed_requests = 0, proxies_marked_bad = 0\<rparr>,
          csv_file = file, csv_backup = backup\<rparr>)"

definition fieldnames :: "string list" where
  "fieldnames = [''ip'', ''port'', ''country'', ''city'', ''isp'', ''response_time_ms'',
                 ''status'', ''tested_at'']"

text \<open>
  \<open>proxy['status'] = 'failed'\<close>, and \<open>proxy['row']['status'] = 'failed'\<close> when the row
  is a non-empty dictionary.
\<close>

definition set_failed :: "proxy_entry \<Rightarrow> proxy_entry" where
  "set_failed p =
     p\<lparr>status := ''failed'',
       row := (case row p of
                 None \<Rightarrow> None
               | Some r \<Rightarrow> if r \<noteq> [] then Some (AList.update ''status'' (Some ''failed'') r)
                           else Some r)\<rparr>"

text \<open>
  What \<open>csv.DictWriter.writerow\<close> puts on a line, as \<open>csv.DictReader\<close> reads it back
  under the same header: every field name, a missing key or a \<open>None\<close> cell as the
  empty string.
\<close>

definition written_cell :: "csv_row \<Rightarrow> string \<Rightarrow> string" where
  "written_cell r k = (case map_of r k of Some (Some v) \<Rightarrow> v | _ \<Rightarrow> [])"

definition written_row :: "csv_row \<Rightarrow> csv_row" where
  "written_row r = map (\<lambda>k. (k, Some (written_cell r k))) fieldnames"

text \<open>
  \<open>_save_proxies_to_csv\<close>. \<open>writerow\<close> raises \<open>ValueError\<close> on a row with a key that
  is not a field name; the handler then removes the temporary file and the catalogue
  stays as it was.
\<close>

definition save_proxies_to_csv :: "manager \<Rightarrow> bool \<times> manager" where
  "save_proxies_to_csv s =
     (if filter (\<lambda>p. row p \<noteq> None) (proxy_data s) = [] then (False, s)
      else
        let pd = map (\<lambda>p. if row p \<noteq> None \<and> url p \<in> bad_proxies s then set_failed p else p)
                     (proxy_data s);
            s1 = s\<lparr>proxy_data := pd,
                   csv_backup := (case csv_file s of None \<Rightarrow> csv_backup s | Some f \<Rightarrow> Some f)\<rparr>;
            rows = concat (map (\<lambda>p. case row p of None \<Rightarrow> []
                                       | Some r \<Rightarrow> if r \<noteq> [] then [r] else []) pd)
        in if list_ex (\<lambda>r. list_ex (\<lambda>k. k \<notin> set fieldnames) (map fst r)) rows
           then (False, s1)
           else (True, s1\<lparr>csv_file := Some (map written_row rows)\<rparr>))"

definition reload_proxies :: "env \<Rightarrow> manager \<Rightarrow> nat \<times> manager" where
  "reload_proxies e s =
     (let pd = load_proxies e (csv_file s);
          s1 = s\<lparr>bad_proxies := {}, proxy_data := pd, proxies := map url pd,
                 using_csv := (csv_file s \<noteq> None)\<rparr>
      in (length (proxies s1), s1))"

text \<open>\<open>random.choice(xs)\<close>, the draw being \<open>c\<close>.\<close>

definition random_choice :: "nat \<Rightarrow> 'a list \<Rightarrow> exn + 'a" where
  "random_choice c xs = (if xs = [] then Inl IndexError else Inr (xs ! (c mod length xs)))"

text \<open>
  \<open>get_proxy\<close>. \<open>coin\<close> is the outcome of \<open>random.random() < 0.8\<close> and \<open>c\<close> the draw of
  \<open>random.choice\<close>.
\<close>

definition get_proxy :: "bool \<Rightarrow> nat \<Rightarrow> bool \<Rightarrow> manager \<Rightarrow> exn + (string option \<times> manager)" where
  "get_proxy coin c prefer_fast s =
     (if proxies s = [] then Inr (None, s)
      else
        let available0 = filter (\<lambda>p. url p \<notin> bad_proxies s) (proxy_data s);
            s1 = (if available0 = [] then s\<lparr>bad_proxies := {}\<rparr> else s);
            available = (if available0 = [] then proxy_data s else available0);
            pool = (if prefer_fast \<and> coin
                    then take (max 1 (length available div 3)) available
                    else available)
        in case random_choice c pool of
             Inl x \<Rightarrow> Inl x
           | Inr proxy_entry \<Rightarrow> Inr (Some (url proxy_entry), s1))"

definition get_available_proxy_count :: "manager \<Rightarrow> nat" where
  "get_available_proxy_count s = length (filter (\<lambda>p. p \<notin> bad_proxies s) (proxies s))"

definition get_proxy_count :: "manager \<Rightarrow> nat" where
  "get_proxy_count s = length (proxies s)"

text \<open>The search for the entry in \<open>mark_proxy_bad\<close> stops at the first match.\<close>

fun mark_first :: "string \<Rightarrow> proxy_entry list \<Rightarrow> proxy_entry list" where
  "mark_first u [] = []"
| "mark_first u (p # ps) = (if url p = u then set_failed p # ps else p # mark_first u ps)"

definition mark_proxy_bad :: "string \<Rightarrow> manager \<Rightarrow> manager" where
  "mark_proxy_bad proxy s =
     (if proxy = [] \<or> proxy \<in> bad_proxies s then s
      else
        let proxy_entry = find (\<lambda>p. url p = proxy) (proxy_data s);
            s1 = s\<lparr>bad_proxies := insert proxy (bad_proxies s),
                   stats := (stats s)\<lparr>proxies_marked_bad := proxies_marked_bad (stats s) + 1\<rparr>,
                   proxy_data := mark_first proxy (proxy_data s)\<rparr>
        in case proxy_entry of
             None \<Rightarrow> s1
           | Some p \<Rightarrow> if row p \<noteq> None then snd (save_proxies_to_csv s1) else s1)"

definition block_indicators :: "string list" where
  "block_indicators =
     [''unfortunately, bots use duckduckgo too'',
      ''please complete the following challenge'',
      ''select all squares containing a duck'',
      ''anomaly-modal__puzzle'',
      ''error-lite@duckduckgo.com'',
      ''cloudflare'',
      ''captcha'']"

definition is_search_blocked :: "string \<Rightarrow> bool" where
  "is_search_blocked html =
     (if html = [] then False
      else list_ex (\<lambda>i. py_in i (lower html)) block_indicators)"

section \<open>Fetching through the pool\<close>

text \<open>
  What one \<open>requests.get\<close> through a proxy gives: a response with its status code and
  text, one of the three transport exceptions the source names, or another exception.
\<close>

datatype http_result = Response int string | TransportError | OtherError

text \<open>
  The world of one call of \<open>fetch\<close>, by attempt number: the two random draws of
  \<open>get_proxy\<close> and what the request through the chosen proxy gives.
\<close>

record world =
  coin_at :: "nat \<Rightarrow> bool"
  pick_at :: "nat \<Rightarrow> nat"
  response_at :: "nat \<Rightarrow> string \<Rightarrow> http_result"

datatype last_error = HTTP int | Blocked | Transport | Unexpected

datatype failure =
    NoProxiesAvailable nat nat
  | AllAttemptsFailed int nat nat "last_error option"

datatype fetch_exn = ProxyFailureError string failure | Uncaught exn

definition count_failed :: "manager \<Rightarrow> manager" where
  "count_failed s = s\<lparr>stats := (stats s)\<lparr>failed_requests := failed_requests (stats s) + 1\<rparr>\<rparr>"

definition count_success :: "manager \<Rightarrow> manager" where
  "count_success s =
     s\<lparr>stats := (stats s)\<lparr>successful_requests := successful_requests (stats s) + 1\<rparr>\<rparr>"

definition count_total :: "manager \<Rightarrow> manager" where
  "count_total s = s\<lparr>stats := (stats s)\<lparr>total_requests := total_requests (stats s) + 1\<rparr>\<rparr>"

definition is_duckduckgo :: "string \<Rightarrow> bool" where
  "is_duckduckgo u = py_in ''duckduckgo.com'' (lower u)"

text \<open>
  The loop \<open>for attempt in range(self.max_retries)\<close> of \<open>fetch\<close>, with \<open>n\<close> attempts
  left, \<open>i\<close> the attempt number and \<open>last_err\<close> the value of \<open>last_error\<close>.
\<close>

fun fetch_loop ::
  "world \<Rightarrow> string \<Rightarrow> bool \<Rightarrow> nat \<Rightarrow> nat \<Rightarrow> last_error option \<Rightarrow> manager
     \<Rightarrow> (fetch_exn + string) \<times> manager" where
  "fetch_loop w u prefer_fast 0 i last_err s =
     (Inl (ProxyFailureError u
             (AllAttemptsFailed (max_retries s) (get_available_proxy_count s)
                (get_proxy_count s) last_err)),
      count_failed s)"
| "fetch_loop w u prefer_fast (Suc n) i last_err s =
     (case get_proxy (coin_at w i) (pick_at w i) prefer_fast s of
        Inl x \<Rightarrow> (Inl (Uncaught x), s)
      | Inr (chosen, s1) \<Rightarrow>
          (case chosen of
             None \<Rightarrow>
               (Inl (ProxyFailureError u
                       (NoProxiesAvailable (get_proxy_count s1) (get_available_proxy_count s1))),
                count_failed s1)
           | Some proxy \<Rightarrow>
               if proxy = [] then
                 (Inl (ProxyFailureError u
                         (NoProxiesAvailable (get_proxy_count s1) (get_available_proxy_count s1))),
                  count_failed s1)
               else
                 (case response_at w i proxy of
                    Response status_code text \<Rightarrow>
                      if status_code \<noteq> 200 then
                        fetch_loop w u prefer_fast n (Suc i) (Some (HTTP status_code))
                          (mark_proxy_bad proxy s1)
                      else if is_duckduckgo u \<and> is_search_blocked text then
                        fetch_loop w u prefer_fast n (Suc i) (Some Blocked)
                          (mark_proxy_bad proxy s1)
                      else (Inr text, count_success s1)
                  | TransportError \<Rightarrow>
                      fetch_loop w u prefer_fast n (Suc i) (Some Transport)
                        (mark_proxy_bad proxy s1)
                  | OtherError \<Rightarrow>
                      fetch_loop w u prefer_fast n (Suc i) (Some Unexpected)
                        (mark_proxy_bad proxy s1))))"

definition fetch :: "world \<Rightarrow> string \<Rightarrow> bool \<Rightarrow> manager \<Rightarrow> (fetch_exn + string) \<times> manager" where
  "fetch w u prefer_fast s =
     fetch_loop w u prefer_fast (nat (max_retries s)) 0 None (count_total s)"

text \<open>
  The invariant of the manager's fields: \<open>proxies\<close> lists the URLs of \<open>proxy_data\<close>, and
  no URL is empty.
\<close>

definition manager_inv :: "manager \<Rightarrow> bool" where
  "manager_inv s = (proxies s = map url (proxy_data s) \<and> list_all (\<lambda>p. url p \<noteq> []) (proxy_data s))"

text \<open>An attempt fails when \<open>fetch\<close> goes on to the next one after it.\<close>

definition attempt_fails :: "string \<Rightarrow> http_result \<Rightarrow> bool" where
  "attempt_fails u r =
     (case r of
        Response status_code text \<Rightarrow>
          status_code \<noteq> 200 \<or> (is_duckduckgo u \<and> is_search_blocked text)
      | TransportError \<Rightarrow> True
      | OtherError \<Rightarrow> True)"

section \<open>The scraper\<close>

text \<open>
  An anchor the selector \<open>a.result__a\<close> finds: its \<open>href\<close> attribute, its stripped
  text, and the stripped text of the next anchor of the document, if there is one.
\<close>

record anchor =
  href :: cell
  anchor_text :: string
  next_anchor_text :: cell

record link =
  link_url :: string
  link_title :: string
  link_snippet :: string

record page =
  page_url :: string
  page_title :: string
  page_snippet :: string
  page_content :: string

text \<open>
  The library calls of the scraper. \<open>soup_ok html\<close>: \<open>BeautifulSoup(html, "lxml")\<close>
  and the queries on it raise nothing. \<open>select_anchors html sel\<close>: the anchors of
  \<open>soup.select(sel)\<close>, in document order. \<open>select_texts html sel\<close>: the
  \<open>get_text(strip=True)\<close> of the nodes of \<open>soup.select(sel)\<close>, in document order.
  \<open>uddg_param l\<close>: the first value of the query parameter \<open>uddg\<close> of the link \<open>l\<close>
  (\<open>urlparse\<close> and \<open>parse_qs\<close>). \<open>py_int s\<close>: \<open>int(s)\<close>, \<open>None\<close> where it raises.
\<close>

record html_lib =
  soup_ok :: "string \<Rightarrow> bool"
  select_anchors :: "string \<Rightarrow> string \<Rightarrow> anchor list"
  select_texts :: "string \<Rightarrow> string \<Rightarrow> string list"
  uddg_param :: "string \<Rightarrow> string option"
  unquote :: "string \<Rightarrow> string"
  py_int :: "string \<Rightarrow> int option"

definition extract_real_url :: "html_lib \<Rightarrow> string \<Rightarrow> string" where
  "extract_real_url lib duck_link =
     (case uddg_param lib duck_link of Some v \<Rightarrow> unquote lib v | None \<Rightarrow> duck_link)"

definition link_of_anchor :: "html_lib \<Rightarrow> string \<Rightarrow> anchor \<Rightarrow> link" where
  "link_of_anchor lib h a =
     \<lparr>link_url = extract_real_url lib h, link_title = anchor_text a,
      link_snippet = (case next_anchor_text a of Some t \<Rightarrow> t | None \<Rightarrow> [])\<rparr>"

text \<open>The loop \<open>for a in results\<close> of \<open>extract_links\<close>; \<open>out\<close> is the list built so far.\<close>

fun collect_links :: "html_lib \<Rightarrow> int \<Rightarrow> anchor list \<Rightarrow> link list \<Rightarrow> link list" where
  "collect_links lib max_links [] out = out"
| "collect_links lib max_links (a # as) out =
     (case href a of
        None \<Rightarrow> collect_links lib max_links as out
      | Some h \<Rightarrow>
          if h = [] then collect_links lib max_links as out
          else
            let out1 = out @ [link_of_anchor lib h a]
            in if int (length out1) \<ge> max_links then out1
               else collect_links lib max_links as out1)"

definition extract_links :: "html_lib \<Rightarrow> string \<Rightarrow> int \<Rightarrow> exn + link list" where
  "extract_links lib html max_links =
     (if html = [] \<or> is_search_blocked html then Inr []
      else if \<not> soup_ok lib html then Inl ParserError
      else
        let results = (if select_anchors lib html ''a.result__a'' \<noteq> []
                       then select_anchors lib html ''a.result__a''
                       else select_anchors lib html ''.result__body a.result__a'')
        in Inr (collect_links lib max_links results []))"

definition KEYWORDS :: "string list" where
  "KEYWORDS = [''services'', ''CEO'', ''founder'', ''clients'', ''products'', ''solutions'',
               ''funding'']"

definition is_cased :: "char \<Rightarrow> bool" where
  "is_cased c = (let n = (of_char c :: nat) in
     (65 \<le> n \<and> n \<le> 90) \<or> (97 \<le> n \<and> n \<le> 122) \<or> n = 170 \<or> n = 181 \<or> n = 186 \<or>
     (192 \<le> n \<and> n \<noteq> 215 \<and> n \<noteq> 247))"

text \<open>\<open>str.islower\<close>: some character is cased and no cased character is upper case.\<close>

definition islower :: "string \<Rightarrow> bool" where
  "islower s = (list_ex is_cased s \<and> list_all (\<lambda>c. lower_char c = c) s)"

definition contains_keywords :: "string \<Rightarrow> string list \<Rightarrow> bool" where
  "contains_keywords text keywords =
     (let text_lower = (if \<not> islower text then lower text else text)
      in list_ex (\<lambda>k. py_in (lower k) text_lower) keywords)"

text \<open>
  The alternatives of the regular expression of \<open>is_navigational_content\<close>. The search
  ignores case, and every alternative is in lower case: it matches where the phrase occurs
  in the lowered text.
\<close>

definition navigational_phrases :: "string list" where
  "navigational_phrases =
     [''click here'', ''privacy'', ''terms'', ''login'', ''subscribe'', [CHR 0xA9],
      ''all rights reserved'']"

definition is_navigational_content :: "string \<Rightarrow> int \<Rightarrow> bool" where
  "is_navigational_content text min_words =
     (if int (length (py_split text)) < min_words then False
      else if list_ex (\<lambda>p. py_in p (lower text)) navigational_phrases then True
      else False)"

text \<open>
  The loop \<open>for p in paragraphs\<close> of \<open>extract_relevant_content\<close>, over the texts of the
  nodes. The state is \<open>useful_content\<close>, \<open>seen_texts\<close> and \<open>total_length\<close>.
\<close>

fun scan_paragraphs ::
  "int \<Rightarrow> string list \<Rightarrow> string list \<times> string set \<times> int \<Rightarrow> string list \<times> string set \<times> int" where
  "scan_paragraphs max_chars [] acc = acc"
| "scan_paragraphs max_chars (text # ps) (useful, seen, total_length) =
     (if text = [] \<or> length text < 10 then scan_paragraphs max_chars ps (useful, seen, total_length)
      else if is_navigational_content text 5 \<or> \<not> contains_keywords (lower text) KEYWORDS
      then scan_paragraphs max_chars ps (useful, seen, total_length)
      else if text \<in> seen then scan_paragraphs max_chars ps (useful, seen, total_length)
      else
        let total_length1 = total_length + int (length text)
        in if total_length1 \<ge> max_chars then (useful @ [text], insert text seen, total_length1)
           else scan_paragraphs max_chars ps (useful @ [text], insert text seen, total_length1))"

definition content_selectors :: "string list" where
  "content_selectors =
     [''main p, main div'',
      ''article p, article div'',
      ''.content p, .content div, .main-content p, .main-content div'',
      ''p, div'']"

text \<open>The loop \<open>for selector in content_selectors\<close>.\<close>

fun scan_selectors ::
  "html_lib \<Rightarrow> string \<Rightarrow> int \<Rightarrow> string list \<Rightarrow> string list \<times> string set \<times> int
     \<Rightarrow> string list \<times> string set \<times> int" where
  "scan_selectors lib html max_chars [] acc = acc"
| "scan_selectors lib html max_chars (selector # sels) (useful, seen, total_length) =
     (if total_length \<ge> max_chars then (useful, seen, total_length)
      else
        let acc1 = scan_paragraphs max_chars (select_texts lib html selector) (useful, seen, total_length)
        in if snd (snd acc1) \<ge> max_chars then acc1
           else scan_selectors lib html max_chars sels acc1)"

text \<open>\<open>" ".join(xs)\<close>\<close>

fun join_space :: "string list \<Rightarrow> string" where
  "join_space [] = []"
| "join_space [x] = x"
| "join_space (x # y # ys) = x @ '' '' @ join_space (y # ys)"

text \<open>The slice \<open>s[:m]\<close>: a negative \<open>m\<close> counts from the end.\<close>

definition slice_to :: "int \<Rightarrow> string \<Rightarrow> string" where
  "slice_to m s = (if m \<ge> 0 then take (nat m) s else take (nat (int (length s) + m)) s)"

definition extract_relevant_content :: "html_lib \<Rightarrow> string \<Rightarrow> int \<Rightarrow> exn + string" where
  "extract_relevant_content lib html max_chars =
     (if html = [] then Inr []
      else if \<not> soup_ok lib html then Inl ParserError
      else
        let useful_content = fst (scan_selectors lib html max_chars content_selectors ([], {}, 0));
            result = join_space useful_content
        in Inr (if int (length result) > max_chars then slice_to max_chars result else result))"

text \<open>
  What one \<open>session.get\<close> of a page gives: a response with its status code, its
  \<open>content-length\<close> header and its text, a timeout, or another exception.
\<close>

datatype page_result = PageResponse int cell string | PageTimeout | PageError

text \<open>The statements after \<open>session.get\<close> in \<open>_fetch_with_session\<close>, the same at both tiers.\<close>

definition read_page :: "html_lib \<Rightarrow> int \<Rightarrow> cell \<Rightarrow> string \<Rightarrow> string" where
  "read_page lib status_code content_length text =
     (case content_length of
        None \<Rightarrow> (if status_code = 200 then text else [])
      | Some c \<Rightarrow>
          if c = [] then (if status_code = 200 then text else [])
          else (case py_int lib c of
                  None \<Rightarrow> []
                | Some n \<Rightarrow> if n > 2000000 then []
                            else if status_code = 200 then text else []))"

definition fetch_with_session :: "html_lib \<Rightarrow> page_result \<Rightarrow> page_result \<Rightarrow> string" where
  "fetch_with_session lib first_try second_try =
     (case first_try of
        PageResponse status_code content_length text \<Rightarrow>
          read_page lib status_code content_length text
      | PageTimeout \<Rightarrow>
          (case second_try of
             PageResponse status_code content_length text \<Rightarrow>
               read_page lib status_code content_length text
           | PageTimeout \<Rightarrow> []
           | PageError \<Rightarrow> [])
      | PageError \<Rightarrow> [])"

definition scrape_single_link :: "html_lib \<Rightarrow> page_result \<Rightarrow> page_result \<Rightarrow> link \<Rightarrow> page option" where
  "scrape_single_link lib first_try second_try l =
     (let html = fetch_with_session lib first_try second_try
      in if html = [] then None
         else (case extract_relevant_content lib html 2000 of
                 Inl x \<Rightarrow> None
               | Inr content \<Rightarrow>
                   if content \<noteq> []
                   then Some \<lparr>page_url = link_url l, page_title = link_title l,
                              page_snippet = link_snippet l, page_content = content\<rparr>
                   else None))"

text \<open>
  \<open>scrape_links_content\<close>. Task \<open>i\<close> scrapes \<open>links[i]\<close> with its own session;
  \<open>pages i\<close> gives what its first and second request find, and \<open>finish i\<close> the time at
  which it completes: \<open>as_completed\<close> yields the tasks in that order.
  \<open>ThreadPoolExecutor\<close> raises \<open>ValueError\<close> for a worker count that is not positive.
\<close>

definition scrape_links_content ::
  "html_lib \<Rightarrow> (nat \<Rightarrow> page_result \<times> page_result) \<Rightarrow> (nat \<Rightarrow> nat) \<Rightarrow> link list \<Rightarrow> int
     \<Rightarrow> exn + page list" where
  "scrape_links_content lib pages finish links max_workers =
     (if links = [] then Inr []
      else if min max_workers (int (length links)) \<le> 0 then Inl ValueError
      else Inr (List.map_filter
                  (\<lambda>i. scrape_single_link lib (fst (pages i)) (snd (pages i)) (links ! i))
                  (sort_key finish [0..<length links])))"

text \<open>Example inputs.\<close>

definition example_env :: env where
  "example_env =
     \<lparr>PROXIES = [''socks5://192.0.2.9:1080''],
      py_float = (\<lambda>s. if s = ''12'' then Some (Finite 12)
                      else if s = ''7.5'' then Some (Finite (15 / 2))
                      else if s = ''nan'' then Some NaN
                      else None),
      sort_with_nan = (\<lambda>ks. [0..<length ks])\<rparr>"

definition row_nan :: csv_row where
  "row_nan =
     [(''ip'', Some ''10.0.0.5''), (''port'', Some ''1080''), (''country'', Some ''SE''),
      (''city'', Some ''Lund''), (''isp'', Some ''V''), (''response_time_ms'', Some ''nan''),
      (''status'', Some ''working''), (''tested_at'', Some ''2025-01-01'')]"



definition row_a :: csv_row where
  "row_a =
     [(''ip'', Some ''10.0.0.1''), (''port'', Some ''1080''), (''country'', Some ''DE''),
      (''city'', Some ''Berlin''), (''isp'', Some ''X''), (''response_time_ms'', Some ''12''),
      (''status'', Some ''working''), (''tested_at'', Some ''2025-01-01'')]"

definition row_b :: csv_row where
  "row_b =
     [(''ip'', Some ''10.0.0.2''), (''port'', Some ''1080''), (''country'', Some ''FR''),
      (''city'', Some ''Paris''), (''isp'', Some ''Y''), (''response_time_ms'', Some ''7.5''),
      (''status'', Some ''working''), (''tested_at'', Some ''2025-01-01'')]"

definition row_c :: csv_row where
  "row_c =
     [(''ip'', Some ''10.0.0.3''), (''port'', Some ''1080''), (''country'', Some ''US''),
      (''city'', Some ''Boston''), (''isp'', Some ''Z''), (''response_time_ms'', Some ''12''),
      (''status'', Some ''failed''), (''tested_at'', Some ''2025-01-01'')]"

definition ex_entry :: "string \<Rightarrow> pyfloat \<Rightarrow> proxy_entry" where
  "ex_entry h t =
     \<lparr>url = ''socks5://'' @ h @ '':1080'', ip = h, port = ''1080'',
      country = Some ''Unknown'', city = Some ''Unknown'', isp = Some ''Unknown'',
      response_time_ms = t, status = ''working'', tested_at = Some [], row = None\<rparr>"

definition three_proxies :: manager where
  "three_proxies =
     \<lparr>max_retries = 3, min_proxies_threshold = 10,
      proxy_data = [ex_entry ''a'' (Finite 5), ex_entry ''b'' (Finite 7), ex_entry ''c'' (Finite 9)],
      proxies = [''socks5://a:1080'', ''socks5://b:1080'', ''socks5://c:1080''],
      bad_proxies = {}, using_csv = False,
      stats = \<lparr>total_requests = 0, successful_requests = 0, failed_requests = 0,
                proxies_marked_bad = 0\<rparr>,
      csv_file = None, csv_backup = None\<rparr>"

definition world_503_503_ok :: world where
  "world_503_503_ok =
     \<lparr>coin_at = (\<lambda>i. True), pick_at = (\<lambda>i. 0),
      response_at = (\<lambda>i p. if i < 2 then Response 503 [] else Response 200 ''<html>ok</html>'')\<rparr>"

definition world_ok :: world where
  "world_ok = \<lparr>coin_at = (\<lambda>i. True), pick_at = (\<lambda>i. 0),
                response_at = (\<lambda>i p. Response 200 ''<html>ok</html>'')\<rparr>"

definition world_201 :: world where
  "world_201 = \<lparr>coin_at = (\<lambda>i. True), pick_at = (\<lambda>i. 0),
                 response_at = (\<lambda>i p. Response 201 ''ok'')\<rparr>"

definition world_captcha :: world where
  "world_captcha = \<lparr>coin_at = (\<lambda>i. True), pick_at = (\<lambda>i. 0),
                 response_at = (\<lambda>i p. Response 200 ''captcha'')\<rparr>"

definition all_quarantined :: manager where
  "all_quarantined = three_proxies\<lparr>bad_proxies := set (proxies three_proxies)\<rparr>"

definition world_blocked_then_ok :: world where
  "world_blocked_then_ok =
     \<lparr>coin_at = (\<lambda>i. True), pick_at = (\<lambda>i. 0),
      response_at = (\<lambda>i p. if i < 1 then Response 200 ''<html>CAPTCHA required</html>''
                           else Response 200 ''<html>results</html>'')\<rparr>"

definition world_503_503_ok_then_down :: world where
  "world_503_503_ok_then_down =
     \<lparr>coin_at = (\<lambda>i. True), pick_at = (\<lambda>i. 0),
      response_at = (\<lambda>i p. if i < 2 then Response 503 []
                           else if i = 2 then Response 200 ''<html>ok</html>''
                           else TransportError)\<rparr>"

definition example_lib :: html_lib where
  "example_lib =
     \<lparr>soup_ok = (\<lambda>h. h \<noteq> ''<bad>''),
      select_anchors = (\<lambda>h sel. if sel = ''a.result__a''
         then [\<lparr>href = Some ''https://example.com/a'', anchor_text = ''A'',
                 next_anchor_text = Some ''about a''\<rparr>,
               \<lparr>href = None, anchor_text = ''no link'', next_anchor_text = None\<rparr>,
               \<lparr>href = Some ''https://example.com/b'', anchor_text = ''B'',
                 next_anchor_text = None\<rparr>]
         else []),
      select_texts = (\<lambda>h sel. if sel = ''main p, main div''
         then [''We offer cloud services to clients worldwide.'', ''short'']
         else []),
      uddg_param = (\<lambda>l. None),
      unquote = (\<lambda>v. v),
      py_int = (\<lambda>s. if s = ''10'' then Some 10 else None)\<rparr>"

definition example_links :: "link list" where
  "example_links =
     [\<lparr>link_url = ''https://example.com/a'', link_title = ''A'', link_snippet = ''about a''\<rparr>,
      \<lparr>link_url = ''https://example.com/b'', link_title = ''B'', link_snippet = []\<rparr>,
      \<lparr>link_url = ''https://example.com/c'', link_title = ''C'', link_snippet = []\<rparr>]"

definition example_pages :: "nat \<Rightarrow> page_result \<times> page_result" where
  "example_pages i =
     (if i = 0 then (PageResponse 200 None ''<html>one</html>'', PageError)
      else if i = 1 then (PageTimeout, PageTimeout)
      else (PageResponse 200 (Some ''10'') ''<bad>'', PageError))"

text \<open>An anchor that \<open>extract_links\<close> does not skip: its \<open>href\<close> is a non-empty string.\<close>

definition has_href :: "anchor \<Rightarrow> bool" where
  "has_href a = (case href a of None \<Rightarrow> False | Some h \<Rightarrow> h \<noteq> [])"

text \<open>
  A canonical row has exactly the eight fields of the catalogue, each as text. A
  catalogue entry is a record that was read from such a row. \<open>mark_all p\<close> sets to
  failed every record of the endpoint \<open>p\<close>.
\<close>

definition canonical_row :: "csv_row \<Rightarrow> bool" where
  "canonical_row r = (map fst r = fieldnames \<and> list_all (\<lambda>kv. snd kv \<noteq> None) r)"

definition catalogue_entry :: "env \<Rightarrow> proxy_entry \<Rightarrow> bool" where
  "catalogue_entry e q =
     (case row q of None \<Rightarrow> False
      | Some r \<Rightarrow> canonical_row r \<and> read_row e r = Inr (Some q))"

definition mark_all :: "string \<Rightarrow> proxy_entry list \<Rightarrow> proxy_entry list" where
  "mark_all p ps = map (\<lambda>q. if url q = p then set_failed q else q) ps"

definition catalogue_abc :: "csv_row list" where
  "catalogue_abc = [row_a, row_b, row_c]"

section \<open>Loading the catalogue\<close>

lemma read_row_readable:
  assumes "row_readable e r"
  shows "\<exists>p. read_row e r = Inr (if eligible r then Some p else None) \<and>
             (eligible r \<longrightarrow> row p = Some r)"
  using assms
  by (auto simp: row_readable_def read_row_def get_strip_def eligible_def
           split: option.splits sum.splits)

lemma read_rows_readable:
  assumes "\<forall>r \<in> set rows. row_readable e r"
  shows "\<exists>ps. read_rows e rows = Inr ps \<and> map row ps = map Some (filter eligible rows)"
  using assms
proof (induction rows)
  case Nil
  then show ?case by simp
next
  case (Cons r rs)
  then obtain ps where ps: "read_rows e rs = Inr ps"
      "map row ps = map Some (filter eligible rs)"
    by auto
  from Cons.prems obtain p where p:
      "read_row e r = Inr (if eligible r then Some p else None)"
      "eligible r \<longrightarrow> row p = Some r"
    using read_row_readable by (metis list.set_intros(1))
  show ?case
    using ps p by (cases "eligible r") auto
qed

lemma read_row_Some:
  assumes "read_row e r = Inr (Some q)"
  shows "row q = Some r" "url q \<noteq> []" "eligible r"
    "get_response_time e r = Inr (response_time_ms q)"
    "url q = ''socks5://'' @ ip q @ '':'' @ port q"
    "row_get r ''ip'' (Some []) = Some i \<Longrightarrow> ip q = strip i"
    "row_get r ''port'' (Some []) = Some j \<Longrightarrow> port q = strip j"
    "status q = ''working''"
  using assms
  by (auto simp: read_row_def get_strip_def eligible_def split: sum.splits if_splits option.splits)

lemma read_rows_entries:
  assumes "read_rows e rows = Inr ps" "q \<in> set ps"
  shows "\<exists>r \<in> set rows. read_row e r = Inr (Some q)"
  using assms
proof (induction rows arbitrary: ps)
  case Nil
  then show ?case by simp
next
  case (Cons r rs)
  then show ?case
    by (auto split: sum.splits option.splits)
qed




lemma sort_by_response_time_plain:
  "NaN \<notin> set (map response_time_ms ps) \<Longrightarrow>
     sort_by_response_time e ps = sort_key (\<lambda>p. float_key (response_time_ms p)) ps"
  by (simp add: sort_by_response_time_def)



text \<open>No row that is kept has nan as its latency.\<close>

lemma read_rows_no_nan:
  assumes "read_rows e rows = Inr ps"
      and "\<forall>r \<in> set rows. eligible r \<longrightarrow> get_response_time e r \<noteq> Inr NaN"
  shows "NaN \<notin> set (map response_time_ms ps)"
proof
  assume "NaN \<in> set (map response_time_ms ps)"
  then obtain q where q: "q \<in> set ps" "response_time_ms q = NaN" by auto
  obtain r where r: "r \<in> set rows" "read_row e r = Inr (Some q)"
    using read_rows_entries [OF assms(1) q(1)] by blast
  from read_row_Some(3,4) [OF r(2)] q(2) assms(2) r(1) show False by auto
qed





text \<open>
  A list of two or more records, one of which has nan as its latency, is in no order
  ascending: the hypothesis on nan in the theorem above cannot be dropped.
\<close>

lemma nan_not_ascending:
  assumes "NaN \<in> set (map response_time_ms ps)" "2 \<le> length ps"
  shows "\<not> ascending_latency ps"
proof
  assume asc: "ascending_latency ps"
  from assms(1) obtain i where i: "i < length ps" "response_time_ms (ps ! i) = NaN"
    by (auto simp: in_set_conv_nth)
  from assms(2) i(1) obtain j where j: "j < length ps" "j \<noteq> i"
    by (cases "i = 0") (auto intro: that [of 0] that [of 1])
  show False
  proof (cases "j < i")
    case True
    with asc i(1) have "py_le (response_time_ms (ps ! j)) (response_time_ms (ps ! i))"
      unfolding ascending_latency_def sorted_wrt_iff_nth_less by blast
    with i(2) show False by (cases "response_time_ms (ps ! j)") simp_all
  next
    case False
    with j have "i < j" by simp
    with asc j(1) have "py_le (response_time_ms (ps ! i)) (response_time_ms (ps ! j))"
      unfolding ascending_latency_def sorted_wrt_iff_nth_less by blast
    with i(2) show False by simp
  qed
qed

lemma load_proxies_nan_example:
  "map response_time_ms (load_proxies example_env (Some [row_a, row_nan, row_b]))
     = [Finite 12, NaN, Finite (15 / 2)] \<and>
   \<not> ascending_latency (load_proxies example_env (Some [row_a, row_nan, row_b]))"
  by code_simp

section \<open>Quarantine and selection\<close>

lemma url_set_failed [simp]: "url (set_failed p) = url p"
  by (simp add: set_failed_def)

lemma row_set_failed_None [simp]: "row (set_failed p) = None \<longleftrightarrow> row p = None"
  by (simp add: set_failed_def split: option.splits)

lemma map_url_mark_first [simp]: "map url (mark_first u ps) = map url ps"
  by (induction ps) auto

lemma save_keeps:
  "bad_proxies (snd (save_proxies_to_csv s)) = bad_proxies s"
  "stats (snd (save_proxies_to_csv s)) = stats s"
  "proxies (snd (save_proxies_to_csv s)) = proxies s"
  "max_retries (snd (save_proxies_to_csv s)) = max_retries s"
  "map url (proxy_data (snd (save_proxies_to_csv s))) = map url (proxy_data s)"
  by (simp_all add: save_proxies_to_csv_def Let_def comp_def)

lemma mark_proxy_bad_keeps:
  "proxies (mark_proxy_bad p s) = proxies s"
  "max_retries (mark_proxy_bad p s) = max_retries s"
  "map url (proxy_data (mark_proxy_bad p s)) = map url (proxy_data s)"
  "total_requests (stats (mark_proxy_bad p s)) = total_requests (stats s)"
  "successful_requests (stats (mark_proxy_bad p s)) = successful_requests (stats s)"
  "failed_requests (stats (mark_proxy_bad p s)) = failed_requests (stats s)"
  by (simp_all add: mark_proxy_bad_def Let_def save_keeps split: option.splits)

lemma mark_proxy_bad_new:
  assumes "p \<noteq> []" "p \<notin> bad_proxies s"
  shows "bad_proxies (mark_proxy_bad p s) = insert p (bad_proxies s)"
    and "proxies_marked_bad (stats (mark_proxy_bad p s)) = proxies_marked_bad (stats s) + 1"
  using assms
  by (simp_all add: mark_proxy_bad_def Let_def save_keeps split: option.splits)

lemma mark_proxy_bad_member:
  "p \<noteq> [] \<Longrightarrow> p \<in> bad_proxies (mark_proxy_bad p s)"
  by (cases "p \<in> bad_proxies s") (simp_all add: mark_proxy_bad_new, simp add: mark_proxy_bad_def)

lemma manager_inv_urls:
  "manager_inv s \<longleftrightarrow> proxies s = map url (proxy_data s) \<and> [] \<notin> set (map url (proxy_data s))"
  by (force simp: manager_inv_def list_all_iff)

lemma manager_inv_mark: "manager_inv s \<Longrightarrow> manager_inv (mark_proxy_bad p s)"
  by (simp add: manager_inv_urls mark_proxy_bad_keeps del: set_map)

lemma marking_twice: "mark_proxy_bad p (mark_proxy_bad p s) = mark_proxy_bad p s"
proof (cases "p = []")
  case True
  then show ?thesis by (simp add: mark_proxy_bad_def)
next
  case False
  then have "p \<in> bad_proxies (mark_proxy_bad p s)" by (rule mark_proxy_bad_member)
  then show ?thesis by (simp add: mark_proxy_bad_def [of p "mark_proxy_bad p s"])
qed

lemma mark_proxy_bad_files:
  assumes "case find (\<lambda>q. url q = p) (proxy_data s) of None \<Rightarrow> True | Some q \<Rightarrow> row q = None"
  shows "csv_file (mark_proxy_bad p s) = csv_file s \<and> csv_backup (mark_proxy_bad p s) = csv_backup s"
  using assms by (simp add: mark_proxy_bad_def Let_def split: option.splits)

lemma random_choice_mem:
  "xs \<noteq> [] \<Longrightarrow> \<exists>x \<in> set xs. random_choice c xs = Inr x"
  by (simp add: random_choice_def)

lemma take_pool_nonempty: "xs \<noteq> [] \<Longrightarrow> take (max 1 (length xs div 3)) xs \<noteq> []"
  by (cases xs) (auto simp: max_def)

lemma get_proxy_result:
  assumes "manager_inv s"
  shows "\<exists>r s1. get_proxy coin c prefer_fast s = Inr (r, s1) \<and>
           (r = None \<longleftrightarrow> proxies s = []) \<and>
           (\<forall>u. r = Some u \<longrightarrow> u \<in> set (proxies s) \<and> u \<notin> bad_proxies s1) \<and>
           (proxies s \<noteq> [] \<and> set (proxies s) \<subseteq> bad_proxies s \<longrightarrow> bad_proxies s1 = {}) \<and>
           (\<not> set (proxies s) \<subseteq> bad_proxies s \<longrightarrow> s1 = s)"
proof (cases "proxies s = []")
  case True
  then show ?thesis by (simp add: get_proxy_def)
next
  case False
  define available0 where "available0 = filter (\<lambda>p. url p \<notin> bad_proxies s) (proxy_data s)"
  define s1 where "s1 = (if available0 = [] then s\<lparr>bad_proxies := {}\<rparr> else s)"
  define available where "available = (if available0 = [] then proxy_data s else available0)"
  define pool where "pool = (if prefer_fast \<and> coin
                    then take (max 1 (length available div 3)) available
                    else available)"
  from assms False have pd: "proxy_data s \<noteq> []" "proxies s = map url (proxy_data s)"
    by (auto simp: manager_inv_def)
  have av: "available \<noteq> []" using pd by (simp add: available_def)
  have pool_ne: "pool \<noteq> []" using av take_pool_nonempty by (simp add: pool_def)
  have pool_sub: "set pool \<subseteq> set available"
    by (auto simp: pool_def dest: in_set_takeD)
  obtain x where x: "x \<in> set pool" "random_choice c pool = Inr x"
    using random_choice_mem [OF pool_ne] by blast
  have "get_proxy coin c prefer_fast s =
          (case random_choice c pool of Inl x \<Rightarrow> Inl x
           | Inr proxy_entry \<Rightarrow> Inr (Some (url proxy_entry), s1))"
    unfolding get_proxy_def Let_def pool_def available_def s1_def available0_def
    using False by simp
  then have gp: "get_proxy coin c prefer_fast s = Inr (Some (url x), s1)"
    using x(2) by simp
  have xin: "x \<in> set available" using x(1) pool_sub by blast
  have a0: "available0 = [] \<longleftrightarrow> set (proxies s) \<subseteq> bad_proxies s"
    by (auto simp: available0_def pd(2) filter_empty_conv)
  have mem: "url x \<in> set (proxies s)"
    using xin by (auto simp: available_def available0_def pd(2) split: if_splits)
  have notbad: "url x \<notin> bad_proxies s1"
    using xin by (auto simp: available_def available0_def s1_def split: if_splits)
  show ?thesis
    using gp False mem notbad a0 by (auto simp: s1_def)
qed

section \<open>The retry loop\<close>

lemma get_proxy_keeps:
  assumes "get_proxy coin c prefer_fast s = Inr (r, s1)"
  shows "stats s1 = stats s" "proxies s1 = proxies s" "proxy_data s1 = proxy_data s"
        "max_retries s1 = max_retries s"
  using assms
  by (auto simp: get_proxy_def Let_def split: if_splits sum.splits)

lemma manager_inv_get_proxy:
  assumes "get_proxy coin c prefer_fast s = Inr (r, s1)" "manager_inv s"
  shows "manager_inv s1"
  using assms get_proxy_keeps [OF assms(1)] by (simp add: manager_inv_def)

lemma get_proxy_some:
  assumes "manager_inv s" "proxies s \<noteq> []"
  shows "\<exists>p s1. get_proxy coin c prefer_fast s = Inr (Some p, s1) \<and> p \<noteq> [] \<and>
           p \<notin> bad_proxies s1"
proof -
  obtain r s1 where g: "get_proxy coin c prefer_fast s = Inr (r, s1)"
      "r = None \<longleftrightarrow> proxies s = []"
      "\<forall>u. r = Some u \<longrightarrow> u \<in> set (proxies s) \<and> u \<notin> bad_proxies s1"
    using get_proxy_result [OF assms(1)] by blast
  with assms(2) obtain p where p: "r = Some p" by auto
  with g(3) have "p \<in> set (proxies s)" "p \<notin> bad_proxies s1" by auto
  moreover from this(1) assms(1) have "p \<noteq> []"
    by (force simp: manager_inv_def list_all_iff)
  ultimately show ?thesis using g(1) p by blast
qed

lemma fetch_loop_failed_attempt:
  assumes "get_proxy (coin_at w i) (pick_at w i) prefer_fast s = Inr (Some p, s1)" "p \<noteq> []"
      and "attempt_fails u (response_at w i p)"
  shows "\<exists>e. fetch_loop w u prefer_fast (Suc n) i last_err s =
             fetch_loop w u prefer_fast n (Suc i) (Some e) (mark_proxy_bad p s1)"
  using assms
  by (cases "response_at w i p") (auto simp: attempt_fails_def)

lemma fetch_loop_good_attempt:
  assumes "get_proxy (coin_at w i) (pick_at w i) prefer_fast s = Inr (Some p, s1)" "p \<noteq> []"
      and "response_at w i p = Response 200 body"
      and "\<not> (is_duckduckgo u \<and> is_search_blocked body)"
  shows "fetch_loop w u prefer_fast (Suc n) i last_err s = (Inr body, count_success s1)"
  using assms by auto

lemma fetch_loop_trace:
  assumes "manager_inv s" "proxies s \<noteq> []" "k < n"
      and "\<forall>j<k. \<forall>p. attempt_fails u (response_at w (i + j) p)"
      and "\<forall>p. response_at w (i + k) p = Response 200 body"
      and "\<not> (is_duckduckgo u \<and> is_search_blocked body)"
  shows "\<exists>s'. fetch_loop w u prefer_fast n i last_err s = (Inr body, s') \<and>
           successful_requests (stats s') = successful_requests (stats s) + 1 \<and>
           failed_requests (stats s') = failed_requests (stats s) \<and>
           total_requests (stats s') = total_requests (stats s) \<and>
           proxies_marked_bad (stats s') = proxies_marked_bad (stats s) + int k"
  using assms
proof (induction k arbitrary: n i last_err s)
  case 0
  then obtain m where n: "n = Suc m" by (cases n) auto
  obtain p s1 where g: "get_proxy (coin_at w i) (pick_at w i) prefer_fast s = Inr (Some p, s1)"
      "p \<noteq> []"
    using get_proxy_some [OF "0.prems"(1,2)] by blast
  have "fetch_loop w u prefer_fast (Suc m) i last_err s = (Inr body, count_success s1)"
    using fetch_loop_good_attempt [OF g] "0.prems"(5,6) by simp
  then show ?case
    using n get_proxy_keeps(1) [OF g(1)] by (simp add: count_success_def)
next
  case (Suc k)
  then obtain m where n: "n = Suc m" "k < m" by (cases n) auto
  obtain p s1 where g: "get_proxy (coin_at w i) (pick_at w i) prefer_fast s = Inr (Some p, s1)"
      "p \<noteq> []" "p \<notin> bad_proxies s1"
    using get_proxy_some [OF Suc.prems(1,2)] by blast
  have "attempt_fails u (response_at w i p)"
    using Suc.prems(4) by (metis add.right_neutral zero_less_Suc)
  then obtain e where step: "fetch_loop w u prefer_fast (Suc m) i last_err s =
             fetch_loop w u prefer_fast m (Suc i) (Some e) (mark_proxy_bad p s1)"
    using fetch_loop_failed_attempt [OF g(1,2)] by blast
  let ?s2 = "mark_proxy_bad p s1"
  have inv2: "manager_inv ?s2"
    using manager_inv_mark manager_inv_get_proxy [OF g(1) Suc.prems(1)] by blast
  have ne2: "proxies ?s2 \<noteq> []"
    using Suc.prems(2) get_proxy_keeps(2) [OF g(1)] by (simp add: mark_proxy_bad_keeps)
  have f2: "\<forall>j<k. \<forall>p. attempt_fails u (response_at w (Suc i + j) p)"
    using Suc.prems(4) by (metis Suc_less_eq add_Suc_right add_Suc)
  have r2: "\<forall>p. response_at w (Suc i + k) p = Response 200 body"
    using Suc.prems(5) by simp
  obtain s' where s': "fetch_loop w u prefer_fast m (Suc i) (Some e) ?s2 = (Inr body, s')"
      "successful_requests (stats s') = successful_requests (stats ?s2) + 1"
      "failed_requests (stats s') = failed_requests (stats ?s2)"
      "total_requests (stats s') = total_requests (stats ?s2)"
      "proxies_marked_bad (stats s') = proxies_marked_bad (stats ?s2) + int k"
    using Suc.IH [OF inv2 ne2 n(2) f2 r2 Suc.prems(6)] by blast
  show ?case
    using step s' n(1) get_proxy_keeps(1) [OF g(1)] mark_proxy_bad_new(2) [OF g(2,3)]
    by (simp add: mark_proxy_bad_keeps)
qed

lemma fetch_loop_counters:
  assumes "manager_inv s"
  shows "case fetch_loop w u prefer_fast n i last_err s of
           (Inr body, s') \<Rightarrow>
             total_requests (stats s') = total_requests (stats s) \<and>
             successful_requests (stats s') = successful_requests (stats s) + 1 \<and>
             failed_requests (stats s') = failed_requests (stats s)
         | (Inl (ProxyFailureError t f), s') \<Rightarrow>
             total_requests (stats s') = total_requests (stats s) \<and>
             successful_requests (stats s') = successful_requests (stats s) \<and>
             failed_requests (stats s') = failed_requests (stats s) + 1
         | (Inl (Uncaught x), s') \<Rightarrow> False"
  using assms
proof (induction n arbitrary: i last_err s)
  case 0
  then show ?case by (simp add: count_failed_def)
next
  case (Suc n)
  show ?case
  proof (cases "proxies s = []")
    case True
    then show ?thesis by (simp add: get_proxy_def count_failed_def)
  next
    case False
    obtain p s1 where g: "get_proxy (coin_at w i) (pick_at w i) prefer_fast s = Inr (Some p, s1)"
        "p \<noteq> []"
      using get_proxy_some [OF Suc.prems False] by blast
    have st: "stats s1 = stats s" by (rule get_proxy_keeps(1) [OF g(1)])
    have inv2: "manager_inv (mark_proxy_bad p s1)"
      using manager_inv_mark manager_inv_get_proxy [OF g(1) Suc.prems] by blast
    note ih = Suc.IH [OF inv2]
    show ?thesis
    proof (cases "attempt_fails u (response_at w i p)")
      case True
      then obtain e where step: "fetch_loop w u prefer_fast (Suc n) i last_err s =
             fetch_loop w u prefer_fast n (Suc i) (Some e) (mark_proxy_bad p s1)"
        using fetch_loop_failed_attempt [OF g] by blast
      show ?thesis
        using ih [of "Suc i" "Some e"] unfolding step
        by (cases "fetch_loop w u prefer_fast n (Suc i) (Some e) (mark_proxy_bad p s1)")
          (auto simp: mark_proxy_bad_keeps st split: sum.splits fetch_exn.splits)
    next
      case False
      then obtain body where b: "response_at w i p = Response 200 body"
          "\<not> (is_duckduckgo u \<and> is_search_blocked body)"
        by (cases "response_at w i p") (auto simp: attempt_fails_def)
      show ?thesis
        unfolding fetch_loop_good_attempt [OF g b]
        by (simp add: count_success_def st)
    qed
  qed
qed

lemma fetch_loop_never_blocked:
  assumes "is_duckduckgo u" "fetch_loop w u prefer_fast n i last_err s = (Inr body, s')"
  shows "\<not> is_search_blocked body"
  using assms
proof (induction n arbitrary: i last_err s)
  case 0
  then show ?case by simp
next
  case (Suc n)
  from Suc.prems(2) Suc.prems(1) show ?case
    by (auto split: sum.splits option.splits if_splits http_result.splits prod.splits
          dest: Suc.IH [OF Suc.prems(1)])
qed

section \<open>Selection, quarantine and counters\<close>

text \<open>
  Claim C1. In a state that satisfies the invariant, \<open>get_proxy\<close> raises nothing, and
  returns \<open>None\<close> if and only if the proxy list is empty. What it returns is an endpoint
  of the list that is not quarantined afterwards; when the list is non-empty and every
  endpoint is quarantined, the quarantine set is cleared and an endpoint is returned.
\<close>

theorem get_proxy_none_iff_empty:
  assumes "manager_inv s"
  shows "\<exists>r s1. get_proxy coin c prefer_fast s = Inr (r, s1) \<and>
           (r = None \<longleftrightarrow> proxies s = []) \<and>
           (\<forall>u. r = Some u \<longrightarrow> u \<in> set (proxies s) \<and> u \<notin> bad_proxies s1) \<and>
           (proxies s \<noteq> [] \<and> set (proxies s) \<subseteq> bad_proxies s \<longrightarrow> bad_proxies s1 = {})"
  using get_proxy_result [OF assms, of coin c prefer_fast] by blast

theorem get_proxy_none_iff_empty_witness:
  "manager_inv all_quarantined \<and> proxies all_quarantined \<noteq> [] \<and>
   set (proxies all_quarantined) \<subseteq> bad_proxies all_quarantined \<and>
   get_proxy True 0 True all_quarantined =
     Inr (Some ''socks5://a:1080'', all_quarantined\<lparr>bad_proxies := {}\<rparr>)"
proof -
  have inv: "manager_inv all_quarantined" by code_simp
  have ev: "get_proxy True 0 True all_quarantined =
     Inr (Some ''socks5://a:1080'', all_quarantined\<lparr>bad_proxies := {}\<rparr>)" by code_simp
  have ne: "proxies all_quarantined \<noteq> []" by code_simp
  have sub: "set (proxies all_quarantined) \<subseteq> bad_proxies all_quarantined" by code_simp
  show ?thesis
    using get_proxy_none_iff_empty [OF inv, of True 0 True] inv ev ne sub by simp
qed

text \<open>
  Claim C6. Marking an endpoint bad twice is marking it once. Marking an endpoint that is
  not yet quarantined adds it to the quarantine set and adds one to the counter of
  proxies marked bad. When no record of the directory has the endpoint, or the first
  such record has no catalogue row, the catalogue and its backup are not written.
\<close>

theorem mark_proxy_bad_idempotent:
  "mark_proxy_bad p (mark_proxy_bad p s) = mark_proxy_bad p s \<and>
   (p \<noteq> [] \<and> p \<notin> bad_proxies s \<longrightarrow>
      bad_proxies (mark_proxy_bad p s) = insert p (bad_proxies s) \<and>
      proxies_marked_bad (stats (mark_proxy_bad p s)) = proxies_marked_bad (stats s) + 1) \<and>
   ((case find (\<lambda>q. url q = p) (proxy_data s) of None \<Rightarrow> True | Some q \<Rightarrow> row q = None) \<longrightarrow>
      csv_file (mark_proxy_bad p s) = csv_file s \<and>
      csv_backup (mark_proxy_bad p s) = csv_backup s)"
  using marking_twice mark_proxy_bad_new mark_proxy_bad_files by blast

theorem mark_proxy_bad_idempotent_witness:
  "''socks5://a:1080'' \<noteq> [] \<and> ''socks5://a:1080'' \<notin> bad_proxies three_proxies \<and>
   (case find (\<lambda>q. url q = ''socks5://a:1080'') (proxy_data three_proxies) of
      None \<Rightarrow> True | Some q \<Rightarrow> row q = None) \<and>
   mark_proxy_bad ''socks5://a:1080'' (mark_proxy_bad ''socks5://a:1080'' three_proxies)
     = mark_proxy_bad ''socks5://a:1080'' three_proxies \<and>
   bad_proxies (mark_proxy_bad ''socks5://a:1080'' three_proxies) = {''socks5://a:1080''} \<and>
   proxies_marked_bad (stats (mark_proxy_bad ''socks5://a:1080'' three_proxies)) = 1 \<and>
   csv_file (mark_proxy_bad ''socks5://a:1080'' three_proxies) = None"
proof -
  have a: "''socks5://a:1080'' \<notin> bad_proxies three_proxies" by code_simp
  have b: "case find (\<lambda>q. url q = ''socks5://a:1080'') (proxy_data three_proxies) of
      None \<Rightarrow> True | Some q \<Rightarrow> row q = None" by code_simp
  have c: "bad_proxies three_proxies = {}" "proxies_marked_bad (stats three_proxies) = 0"
      "csv_file three_proxies = None"
    by (simp_all add: three_proxies_def)
  show ?thesis
    using mark_proxy_bad_idempotent [of "''socks5://a:1080''" three_proxies] a b c by simp
qed

text \<open>
  Claim C5. In a state that satisfies the invariant, a call of \<open>fetch\<close> either returns a
  body or raises \<open>ProxyFailureError\<close>. In both cases the counter of total requests has
  grown by one; on a return the counter of successes has grown by one and the counter
  of failures is unchanged, on the error the counter of failures has grown by one and
  the counter of successes is unchanged.
\<close>

theorem fetch_counts_once:
  assumes "manager_inv s"
  shows "case fetch w u prefer_fast s of
           (Inr body, s') \<Rightarrow>
             total_requests (stats s') = total_requests (stats s) + 1 \<and>
             successful_requests (stats s') = successful_requests (stats s) + 1 \<and>
             failed_requests (stats s') = failed_requests (stats s)
         | (Inl (ProxyFailureError t f), s') \<Rightarrow>
             total_requests (stats s') = total_requests (stats s) + 1 \<and>
             successful_requests (stats s') = successful_requests (stats s) \<and>
             failed_requests (stats s') = failed_requests (stats s) + 1
         | (Inl (Uncaught x), s') \<Rightarrow> False"
proof -
  have inv: "manager_inv (count_total s)"
    using assms by (simp add: manager_inv_def count_total_def)
  show ?thesis
    using fetch_loop_counters [OF inv, of w u prefer_fast "nat (max_retries s)" 0 None]
    unfolding fetch_def
    by (cases "fetch_loop w u prefer_fast (nat (max_retries s)) 0 None (count_total s)")
      (auto simp: count_total_def split: sum.splits fetch_exn.splits)
qed

theorem fetch_counts_once_witness:
  "manager_inv three_proxies \<and>
   fst (fetch world_503_503_ok ''https://example.com/'' True three_proxies)
     = Inr ''<html>ok</html>'' \<and>
   stats (snd (fetch world_503_503_ok ''https://example.com/'' True three_proxies))
     = \<lparr>total_requests = 1, successful_requests = 1, failed_requests = 0,
        proxies_marked_bad = 2\<rparr> \<and>
   bad_proxies (snd (fetch world_503_503_ok ''https://example.com/'' True three_proxies))
     = {''socks5://a:1080'', ''socks5://b:1080''}"
proof -
  have inv: "manager_inv three_proxies" by code_simp
  have r: "fst (fetch world_503_503_ok ''https://example.com/'' True three_proxies)
     = Inr ''<html>ok</html>''" by code_simp
  have b: "bad_proxies (snd (fetch world_503_503_ok ''https://example.com/'' True three_proxies))
     = {''socks5://a:1080'', ''socks5://b:1080''}" by code_simp
  have m: "proxies_marked_bad
      (stats (snd (fetch world_503_503_ok ''https://example.com/'' True three_proxies))) = 2"
    by code_simp
  have z: "stats three_proxies = \<lparr>total_requests = 0, successful_requests = 0,
      failed_requests = 0, proxies_marked_bad = 0\<rparr>"
    by (simp add: three_proxies_def)
  obtain body s' where f:
    "fetch world_503_503_ok ''https://example.com/'' True three_proxies = (Inr body, s')"
    using r by (cases "fetch world_503_503_ok ''https://example.com/'' True three_proxies") auto
  have "stats s' = \<lparr>total_requests = 1, successful_requests = 1, failed_requests = 0,
        proxies_marked_bad = 2\<rparr>"
    using fetch_counts_once [OF inv, of world_503_503_ok "''https://example.com/''" True]
      m z unfolding f by (cases "stats s'") simp
  then show ?thesis using inv r b f by simp
qed

section \<open>Classification of responses\<close>

lemma fetch_loop_only_first_attempts:
  assumes "manager_inv s" "proxies s \<noteq> []" "k < n"
      and "\<forall>j<k. \<forall>p. attempt_fails u (response_at w (i + j) p)"
      and "\<forall>p. response_at w (i + k) p = Response 200 body"
      and "\<not> (is_duckduckgo u \<and> is_search_blocked body)"
      and "\<forall>j\<le>k. coin_at w' (i + j) = coin_at w (i + j) \<and> pick_at w' (i + j) = pick_at w (i + j) \<and>
                  response_at w' (i + j) = response_at w (i + j)"
  shows "fetch_loop w' u prefer_fast n i last_err s = fetch_loop w u prefer_fast n i last_err s"
  using assms
proof (induction k arbitrary: n i last_err s)
  case 0
  then obtain m where n: "n = Suc m" by (cases n) auto
  obtain p s1 where g: "get_proxy (coin_at w i) (pick_at w i) prefer_fast s = Inr (Some p, s1)"
      "p \<noteq> []"
    using get_proxy_some [OF "0.prems"(1,2)] by blast
  have same: "coin_at w' i = coin_at w i" "pick_at w' i = pick_at w i"
      "response_at w' i = response_at w i"
    using "0.prems"(7) by auto
  show ?case
    using g "0.prems"(5,6) by (auto simp: n same)
next
  case (Suc k)
  then obtain m where n: "n = Suc m" "k < m" by (cases n) auto
  obtain p s1 where g: "get_proxy (coin_at w i) (pick_at w i) prefer_fast s = Inr (Some p, s1)"
      "p \<noteq> []"
    using get_proxy_some [OF Suc.prems(1,2)] by blast
  have same: "coin_at w' i = coin_at w i" "pick_at w' i = pick_at w i"
      "response_at w' i = response_at w i"
    using Suc.prems(7) [rule_format, of 0] by auto
  let ?s2 = "mark_proxy_bad p s1"
  have inv2: "manager_inv ?s2"
    using manager_inv_mark manager_inv_get_proxy [OF g(1) Suc.prems(1)] by blast
  have ne2: "proxies ?s2 \<noteq> []"
    using Suc.prems(2) get_proxy_keeps(2) [OF g(1)] by (simp add: mark_proxy_bad_keeps)
  have f2: "\<forall>j<k. \<forall>p. attempt_fails u (response_at w (Suc i + j) p)"
    using Suc.prems(4) by (metis Suc_less_eq add_Suc_right add_Suc)
  have r2: "\<forall>p. response_at w (Suc i + k) p = Response 200 body"
    using Suc.prems(5) by simp
  have a2: "\<forall>j\<le>k. coin_at w' (Suc i + j) = coin_at w (Suc i + j) \<and>
                  pick_at w' (Suc i + j) = pick_at w (Suc i + j) \<and>
                  response_at w' (Suc i + j) = response_at w (Suc i + j)"
    using Suc.prems(7) by (metis Suc_le_mono add_Suc_right add_Suc)
  have ih: "\<And>e. fetch_loop w' u prefer_fast m (Suc i) e ?s2 =
                 fetch_loop w u prefer_fast m (Suc i) e ?s2"
    using Suc.IH [OF inv2 ne2 n(2) f2 r2 Suc.prems(6) a2] .
  show ?case
    using g by (cases "response_at w i p") (simp_all add: n(1) same ih)
qed

lemma non_200_fails:
  "\<exists>code text. r = Response code text \<and> code \<noteq> 200 \<Longrightarrow> attempt_fails u r"
  by (auto simp: attempt_fails_def)

lemma blocked_fails:
  "is_duckduckgo u \<Longrightarrow> \<exists>text. r = Response 200 text \<and> is_search_blocked text \<Longrightarrow>
     attempt_fails u r"
  by (auto simp: attempt_fails_def)

lemma fetch_run_first_200:
  assumes "manager_inv s" "proxies s \<noteq> []" "k < nat (max_retries s)"
      and "\<forall>j<k. \<forall>p. \<exists>code text. response_at w j p = Response code text \<and> code \<noteq> 200"
      and "\<forall>p. response_at w k p = Response 200 body"
      and "\<not> (is_duckduckgo u \<and> is_search_blocked body)"
  shows "fst (fetch w u prefer_fast s) = Inr body \<and>
         successful_requests (stats (snd (fetch w u prefer_fast s)))
           = successful_requests (stats s) + 1 \<and>
         failed_requests (stats (snd (fetch w u prefer_fast s))) = failed_requests (stats s) \<and>
         proxies_marked_bad (stats (snd (fetch w u prefer_fast s)))
           = proxies_marked_bad (stats s) + int k \<and>
         (\<forall>w'. (\<forall>j\<le>k. coin_at w' j = coin_at w j \<and> pick_at w' j = pick_at w j \<and>
                        response_at w' j = response_at w j)
                \<longrightarrow> fetch w' u prefer_fast s = fetch w u prefer_fast s)"
proof -
  let ?s = "count_total s"
  have inv: "manager_inv ?s" "proxies ?s \<noteq> []" "k < nat (max_retries ?s)"
    using assms(1-3) by (simp_all add: manager_inv_def count_total_def)
  have fl: "\<forall>j<k. \<forall>p. attempt_fails u (response_at w (0 + j) p)"
    using assms(4) non_200_fails by simp
  have ok: "\<forall>p. response_at w (0 + k) p = Response 200 body"
    using assms(5) by simp
  obtain s' where s': "fetch_loop w u prefer_fast (nat (max_retries ?s)) 0 None ?s = (Inr body, s')"
      "successful_requests (stats s') = successful_requests (stats ?s) + 1"
      "failed_requests (stats s') = failed_requests (stats ?s)"
      "proxies_marked_bad (stats s') = proxies_marked_bad (stats ?s) + int k"
    using fetch_loop_trace [OF inv fl ok assms(6)] by blast
  have mr: "max_retries ?s = max_retries s" by (simp add: count_total_def)
  have same: "fetch w' u prefer_fast s = fetch w u prefer_fast s"
    if "\<forall>j\<le>k. coin_at w' j = coin_at w j \<and> pick_at w' j = pick_at w j \<and>
               response_at w' j = response_at w j" for w'
  proof -
    from that have "\<forall>j\<le>k. coin_at w' (0 + j) = coin_at w (0 + j) \<and>
        pick_at w' (0 + j) = pick_at w (0 + j) \<and> response_at w' (0 + j) = response_at w (0 + j)"
      by simp
    from fetch_loop_only_first_attempts [OF inv fl ok assms(6) this, of prefer_fast None]
    show ?thesis by (simp add: fetch_def mr)
  qed
  show ?thesis
    using s' same by (simp add: fetch_def mr count_total_def)
qed

lemma fetch_run_blocked:
  assumes "is_duckduckgo u"
  shows "(fst (fetch w u prefer_fast s) = Inr b \<longrightarrow> \<not> is_search_blocked b) \<and>
         (manager_inv s \<and> proxies s \<noteq> [] \<and> k < nat (max_retries s) \<and>
          (\<forall>j<k. \<forall>p. \<exists>text. response_at w j p = Response 200 text \<and> is_search_blocked text) \<and>
          (\<forall>p. response_at w k p = Response 200 body) \<and> \<not> is_search_blocked body
          \<longrightarrow> fst (fetch w u prefer_fast s) = Inr body \<and>
              proxies_marked_bad (stats (snd (fetch w u prefer_fast s)))
                = proxies_marked_bad (stats s) + int k)"
proof (intro conjI impI)
  assume "fst (fetch w u prefer_fast s) = Inr b"
  then obtain s' where
    "fetch_loop w u prefer_fast (nat (max_retries s)) 0 None (count_total s) = (Inr b, s')"
    unfolding fetch_def
    by (cases "fetch_loop w u prefer_fast (nat (max_retries s)) 0 None (count_total s)") auto
  then show "\<not> is_search_blocked b"
    using fetch_loop_never_blocked [OF assms] by blast
next
  assume a: "manager_inv s \<and> proxies s \<noteq> [] \<and> k < nat (max_retries s) \<and>
          (\<forall>j<k. \<forall>p. \<exists>text. response_at w j p = Response 200 text \<and> is_search_blocked text) \<and>
          (\<forall>p. response_at w k p = Response 200 body) \<and> \<not> is_search_blocked body"
  let ?s = "count_total s"
  have inv: "manager_inv ?s" "proxies ?s \<noteq> []" "k < nat (max_retries ?s)"
    using a by (auto simp: manager_inv_def count_total_def)
  have fl: "\<forall>j<k. \<forall>p. attempt_fails u (response_at w (0 + j) p)"
    using a blocked_fails [OF assms] by simp
  have ok: "\<forall>p. response_at w (0 + k) p = Response 200 body"
    using a by simp
  have nb: "\<not> (is_duckduckgo u \<and> is_search_blocked body)" using a by simp
  obtain s' where s': "fetch_loop w u prefer_fast (nat (max_retries ?s)) 0 None ?s = (Inr body, s')"
      "proxies_marked_bad (stats s') = proxies_marked_bad (stats ?s) + int k"
    using fetch_loop_trace [OF inv fl ok nb] by blast
  have mr: "max_retries ?s = max_retries s" by (simp add: count_total_def)
  show "fst (fetch w u prefer_fast s) = Inr body"
    using s' by (simp add: fetch_def mr)
  show "proxies_marked_bad (stats (snd (fetch w u prefer_fast s)))
                = proxies_marked_bad (stats s) + int k"
    using s' by (simp add: fetch_def mr count_total_def)
qed

lemma get_proxy_chosen:
  assumes "manager_inv s" "get_proxy coin c prefer_fast s = Inr (Some p, s1)"
  shows "p \<noteq> []" "p \<notin> bad_proxies s1" "stats s1 = stats s"
proof -
  obtain r s2 where g: "get_proxy coin c prefer_fast s = Inr (r, s2)"
      "\<forall>u. r = Some u \<longrightarrow> u \<in> set (proxies s) \<and> u \<notin> bad_proxies s2"
    using get_proxy_result [OF assms(1)] by blast
  with assms(2) have m: "p \<in> set (proxies s)" and "p \<notin> bad_proxies s1" by auto
  then show "p \<notin> bad_proxies s1" by simp
  from m assms(1) show "p \<noteq> []"
    by (force simp: manager_inv_def list_all_iff)
  show "stats s1 = stats s" by (rule get_proxy_keeps(1) [OF assms(2)])
qed

lemma fetch_loop_success_step:
  assumes "manager_inv s"
      and "get_proxy (coin_at w i) (pick_at w i) prefer_fast s = Inr (Some p, s1)"
      and "response_at w i p = Response 200 body"
      and "\<not> (is_duckduckgo u \<and> is_search_blocked body)"
  shows "fetch_loop w u prefer_fast (Suc n) i last_err s = (Inr body, count_success s1)"
    and "successful_requests (stats (count_success s1)) = successful_requests (stats s) + 1"
    and "bad_proxies (count_success s1) = bad_proxies s1"
  using assms get_proxy_chosen [OF assms(1,2)]
  by (auto simp: count_success_def)

lemma fetch_loop_quarantine_step:
  assumes "manager_inv s"
      and "get_proxy (coin_at w i) (pick_at w i) prefer_fast s = Inr (Some p, s1)"
  shows "p \<notin> bad_proxies s1"
    and "bad_proxies (mark_proxy_bad p s1) = insert p (bad_proxies s1)"
    and "proxies_marked_bad (stats (mark_proxy_bad p s1)) = proxies_marked_bad (stats s) + 1"
    and "response_at w i p = Response code reply \<Longrightarrow> code \<noteq> 200 \<Longrightarrow>
           fetch_loop w u prefer_fast (Suc n) i last_err s =
             fetch_loop w u prefer_fast n (Suc i) (Some (HTTP code)) (mark_proxy_bad p s1)"
    and "response_at w i p = Response 200 reply \<Longrightarrow> is_duckduckgo u \<Longrightarrow>
           is_search_blocked reply \<Longrightarrow>
           fetch_loop w u prefer_fast (Suc n) i last_err s =
             fetch_loop w u prefer_fast n (Suc i) (Some Blocked) (mark_proxy_bad p s1)"
proof -
  note c = get_proxy_chosen [OF assms]
  show "p \<notin> bad_proxies s1" by (rule c(2))
  show "bad_proxies (mark_proxy_bad p s1) = insert p (bad_proxies s1)"
    by (rule mark_proxy_bad_new(1) [OF c(1,2)])
  show "proxies_marked_bad (stats (mark_proxy_bad p s1)) = proxies_marked_bad (stats s) + 1"
    using mark_proxy_bad_new(2) [OF c(1,2)] c(3) by simp
  show "response_at w i p = Response code reply \<Longrightarrow> code \<noteq> 200 \<Longrightarrow>
           fetch_loop w u prefer_fast (Suc n) i last_err s =
             fetch_loop w u prefer_fast n (Suc i) (Some (HTTP code)) (mark_proxy_bad p s1)"
    using assms(2) c(1) by simp
  show "response_at w i p = Response 200 reply \<Longrightarrow> is_duckduckgo u \<Longrightarrow>
           is_search_blocked reply \<Longrightarrow>
           fetch_loop w u prefer_fast (Suc n) i last_err s =
             fetch_loop w u prefer_fast n (Suc i) (Some Blocked) (mark_proxy_bad p s1)"
    using assms(2) c(1) by simp
qed

text \<open>
  Claim C2, as amended. In a state that satisfies the invariant, with a non-empty pool,
  every attempt of the loop of \<open>fetch\<close> chooses an endpoint. When the response through
  it has status 200 and a body that is not blocked (a body counts as blocked only when the
  URL contains \<open>duckduckgo.com\<close>), the loop returns that body at once, whatever the
  number of attempts left, adds one to the counter of successes and leaves the quarantine
  set as it is. When the response has any other status, the endpoint, not quarantined
  before, is added to the quarantine set, the counter of proxies marked bad grows by one
  and the loop goes on with the next attempt. Over a whole call: when the first \<open>k\<close>
  attempts get a status other than 200 and attempt \<open>k\<close>, within the budget, a status 200
  with a body that is not blocked, \<open>fetch\<close> returns the body of attempt \<open>k\<close>, and what
  later attempts would find has no effect.
\<close>

theorem fetch_returns_first_200:
  assumes "manager_inv s"
  shows "(proxies s \<noteq> [] \<longrightarrow>
            (\<exists>p s1. get_proxy (coin_at w i) (pick_at w i) prefer_fast s = Inr (Some p, s1))) \<and>
         (get_proxy (coin_at w i) (pick_at w i) prefer_fast s = Inr (Some p, s1) \<longrightarrow>
            (response_at w i p = Response 200 body \<and>
             \<not> (is_duckduckgo u \<and> is_search_blocked body) \<longrightarrow>
               fetch_loop w u prefer_fast (Suc n) i last_err s = (Inr body, count_success s1) \<and>
               successful_requests (stats (count_success s1))
                 = successful_requests (stats s) + 1 \<and>
               bad_proxies (count_success s1) = bad_proxies s1) \<and>
            (response_at w i p = Response code reply \<and> code \<noteq> 200 \<longrightarrow>
               fetch_loop w u prefer_fast (Suc n) i last_err s =
                 fetch_loop w u prefer_fast n (Suc i) (Some (HTTP code)) (mark_proxy_bad p s1) \<and>
               p \<notin> bad_proxies s1 \<and>
               bad_proxies (mark_proxy_bad p s1) = insert p (bad_proxies s1) \<and>
               proxies_marked_bad (stats (mark_proxy_bad p s1))
                 = proxies_marked_bad (stats s) + 1)) \<and>
         (proxies s \<noteq> [] \<and> k < nat (max_retries s) \<and>
          (\<forall>j<k. \<forall>p. \<exists>code reply. response_at w j p = Response code reply \<and> code \<noteq> 200) \<and>
          (\<forall>p. response_at w k p = Response 200 body) \<and>
          \<not> (is_duckduckgo u \<and> is_search_blocked body) \<longrightarrow>
            fst (fetch w u prefer_fast s) = Inr body \<and>
            successful_requests (stats (snd (fetch w u prefer_fast s)))
              = successful_requests (stats s) + 1 \<and>
            failed_requests (stats (snd (fetch w u prefer_fast s))) = failed_requests (stats s) \<and>
            proxies_marked_bad (stats (snd (fetch w u prefer_fast s)))
              = proxies_marked_bad (stats s) + int k \<and>
            (\<forall>w'. (\<forall>j\<le>k. coin_at w' j = coin_at w j \<and> pick_at w' j = pick_at w j \<and>
                           response_at w' j = response_at w j)
                   \<longrightarrow> fetch w' u prefer_fast s = fetch w u prefer_fast s))"
proof (intro conjI impI)
  assume "proxies s \<noteq> []"
  then show "\<exists>p s1. get_proxy (coin_at w i) (pick_at w i) prefer_fast s = Inr (Some p, s1)"
    using get_proxy_some [OF assms] by blast
next
  assume g: "get_proxy (coin_at w i) (pick_at w i) prefer_fast s = Inr (Some p, s1)"
     and r: "response_at w i p = Response 200 body \<and>
             \<not> (is_duckduckgo u \<and> is_search_blocked body)"
  from r have r1: "response_at w i p = Response 200 body"
      and r2: "\<not> (is_duckduckgo u \<and> is_search_blocked body)" by blast+
  show "fetch_loop w u prefer_fast (Suc n) i last_err s = (Inr body, count_success s1)"
    by (rule fetch_loop_success_step(1) [OF assms g r1 r2])
  show "successful_requests (stats (count_success s1)) = successful_requests (stats s) + 1"
    by (rule fetch_loop_success_step(2) [OF assms g r1 r2])
  show "bad_proxies (count_success s1) = bad_proxies s1"
    by (rule fetch_loop_success_step(3) [OF assms g r1 r2])
next
  assume g: "get_proxy (coin_at w i) (pick_at w i) prefer_fast s = Inr (Some p, s1)"
     and r: "response_at w i p = Response code reply \<and> code \<noteq> 200"
  note q = fetch_loop_quarantine_step [OF assms g]
  show "fetch_loop w u prefer_fast (Suc n) i last_err s =
          fetch_loop w u prefer_fast n (Suc i) (Some (HTTP code)) (mark_proxy_bad p s1)"
    using q(4) r by blast
  show "p \<notin> bad_proxies s1" by (rule q(1))
  show "bad_proxies (mark_proxy_bad p s1) = insert p (bad_proxies s1)" by (rule q(2))
  show "proxies_marked_bad (stats (mark_proxy_bad p s1)) = proxies_marked_bad (stats s) + 1"
    by (rule q(3))
next
  assume a: "proxies s \<noteq> [] \<and> k < nat (max_retries s) \<and>
          (\<forall>j<k. \<forall>p. \<exists>code reply. response_at w j p = Response code reply \<and> code \<noteq> 200) \<and>
          (\<forall>p. response_at w k p = Response 200 body) \<and>
          \<not> (is_duckduckgo u \<and> is_search_blocked body)"
  then have h: "proxies s \<noteq> []" "k < nat (max_retries s)"
      "\<forall>j<k. \<forall>p. \<exists>code reply. response_at w j p = Response code reply \<and> code \<noteq> 200"
      "\<forall>p. response_at w k p = Response 200 body"
      "\<not> (is_duckduckgo u \<and> is_search_blocked body)"
    by blast+
  note t = fetch_run_first_200 [OF assms h, of prefer_fast]
  show "fst (fetch w u prefer_fast s) = Inr body" using t by blast
  show "successful_requests (stats (snd (fetch w u prefer_fast s)))
              = successful_requests (stats s) + 1" using t by blast
  show "failed_requests (stats (snd (fetch w u prefer_fast s))) = failed_requests (stats s)"
    using t by blast
  show "proxies_marked_bad (stats (snd (fetch w u prefer_fast s)))
              = proxies_marked_bad (stats s) + int k" using t by blast
  show "\<forall>w'. (\<forall>j\<le>k. coin_at w' j = coin_at w j \<and> pick_at w' j = pick_at w j \<and>
                           response_at w' j = response_at w j)
                   \<longrightarrow> fetch w' u prefer_fast s = fetch w u prefer_fast s" using t by blast
qed

theorem fetch_returns_first_200_witness:
  "manager_inv three_proxies \<and>
   get_proxy (coin_at world_503_503_ok 0) (pick_at world_503_503_ok 0) True three_proxies
     = Inr (Some ''socks5://a:1080'', three_proxies) \<and>
   response_at world_503_503_ok 0 ''socks5://a:1080'' = Response 503 [] \<and>
   bad_proxies (mark_proxy_bad ''socks5://a:1080'' three_proxies) = {''socks5://a:1080''} \<and>
   fetch_loop world_503_503_ok ''https://example.com/'' True (Suc 2) 0 None three_proxies
     = fetch_loop world_503_503_ok ''https://example.com/'' True 2 (Suc 0) (Some (HTTP 503))
         (mark_proxy_bad ''socks5://a:1080'' three_proxies) \<and>
   fetch_loop world_ok ''https://example.com/'' True (Suc 2) 0 None three_proxies
     = (Inr ''<html>ok</html>'', count_success three_proxies) \<and>
   fst (fetch world_503_503_ok ''https://example.com/'' True three_proxies)
     = Inr ''<html>ok</html>'' \<and>
   successful_requests
     (stats (snd (fetch world_503_503_ok ''https://example.com/'' True three_proxies))) = 1 \<and>
   proxies_marked_bad
     (stats (snd (fetch world_503_503_ok ''https://example.com/'' True three_proxies))) = 2 \<and>
   bad_proxies (snd (fetch world_503_503_ok ''https://example.com/'' True three_proxies))
     = {''socks5://a:1080'', ''socks5://b:1080''} \<and>
   fetch world_503_503_ok_then_down ''https://example.com/'' True three_proxies
     = fetch world_503_503_ok ''https://example.com/'' True three_proxies"
proof -
  let ?a = "''socks5://a:1080''"
  let ?u = "''https://example.com/''"
  have inv: "manager_inv three_proxies" by code_simp
  have g: "get_proxy (coin_at world_503_503_ok 0) (pick_at world_503_503_ok 0) True three_proxies
     = Inr (Some ?a, three_proxies)" by code_simp
  have g2: "get_proxy (coin_at world_ok 0) (pick_at world_ok 0) True three_proxies
     = Inr (Some ?a, three_proxies)" by code_simp
  have r: "response_at world_503_503_ok 0 ?a = Response 503 []"
    by (simp add: world_503_503_ok_def)
  have r2: "response_at world_ok 0 ?a = Response 200 ''<html>ok</html>''"
    by (simp add: world_ok_def)
  have nb: "\<not> (is_duckduckgo ?u \<and> is_search_blocked ''<html>ok</html>'')" by code_simp
  have z: "bad_proxies three_proxies = {}" "successful_requests (stats three_proxies) = 0"
      "proxies_marked_bad (stats three_proxies) = 0"
    by (simp_all add: three_proxies_def)
  note st1 = fetch_returns_first_200 [OF inv, where w = world_503_503_ok and i = 0
      and prefer_fast = True and p = "?a" and ?s1.0 = three_proxies and code = 503 and reply = "[]"
      and u = "?u" and n = 2 and last_err = None]
  have b1: "bad_proxies (mark_proxy_bad ?a three_proxies) = {?a}"
    using st1 g r z(1) by simp
  have b2: "fetch_loop world_503_503_ok ?u True (Suc 2) 0 None three_proxies
     = fetch_loop world_503_503_ok ?u True 2 (Suc 0) (Some (HTTP 503))
         (mark_proxy_bad ?a three_proxies)"
    using st1 g r by simp
  note st2 = fetch_returns_first_200 [OF inv, where w = world_ok and i = 0
      and prefer_fast = True and p = "?a" and ?s1.0 = three_proxies
      and body = "''<html>ok</html>''" and u = "?u" and n = 2 and last_err = None]
  have b3: "fetch_loop world_ok ?u True (Suc 2) 0 None three_proxies
     = (Inr ''<html>ok</html>'', count_success three_proxies)"
    using st2 g2 r2 nb by blast
  have h2: "proxies three_proxies \<noteq> []" by code_simp
  have h3: "2 < nat (max_retries three_proxies)" by (simp add: three_proxies_def)
  have h4: "\<forall>j<2. \<forall>p. \<exists>code text. response_at world_503_503_ok j p = Response code text \<and>
              code \<noteq> 200"
    by (simp add: world_503_503_ok_def)
  have h5: "\<forall>p. response_at world_503_503_ok 2 p = Response 200 ''<html>ok</html>''"
    by (simp add: world_503_503_ok_def)
  have ag: "\<forall>j\<le>2. coin_at world_503_503_ok_then_down j = coin_at world_503_503_ok j \<and>
              pick_at world_503_503_ok_then_down j = pick_at world_503_503_ok j \<and>
              response_at world_503_503_ok_then_down j = response_at world_503_503_ok j"
    by (auto simp: world_503_503_ok_then_down_def world_503_503_ok_def)
  note st3 = fetch_returns_first_200 [OF inv, where w = world_503_503_ok and k = 2
      and prefer_fast = True and body = "''<html>ok</html>''" and u = "?u"]
  have t: "fst (fetch world_503_503_ok ?u True three_proxies) = Inr ''<html>ok</html>'' \<and>
      successful_requests (stats (snd (fetch world_503_503_ok ?u True three_proxies)))
        = successful_requests (stats three_proxies) + 1 \<and>
      failed_requests (stats (snd (fetch world_503_503_ok ?u True three_proxies)))
        = failed_requests (stats three_proxies) \<and>
      proxies_marked_bad (stats (snd (fetch world_503_503_ok ?u True three_proxies)))
        = proxies_marked_bad (stats three_proxies) + int 2 \<and>
      (\<forall>w'. (\<forall>j\<le>2. coin_at w' j = coin_at world_503_503_ok j \<and>
                     pick_at w' j = pick_at world_503_503_ok j \<and>
                     response_at w' j = response_at world_503_503_ok j)
             \<longrightarrow> fetch w' ?u True three_proxies = fetch world_503_503_ok ?u True three_proxies)"
    using st3 h2 h3 h4 h5 nb by blast
  have t1: "fst (fetch world_503_503_ok ?u True three_proxies) = Inr ''<html>ok</html>''"
    using t by (rule conjunct1)
  have t2: "successful_requests
     (stats (snd (fetch world_503_503_ok ?u True three_proxies))) = 1"
    using t z(2) by linarith
  have t3: "proxies_marked_bad
     (stats (snd (fetch world_503_503_ok ?u True three_proxies))) = 2"
    using t z(3) by linarith
  have t4: "fetch world_503_503_ok_then_down ?u True three_proxies
     = fetch world_503_503_ok ?u True three_proxies"
    using t ag by blast
  have t5: "bad_proxies (snd (fetch world_503_503_ok ?u True three_proxies))
     = {''socks5://a:1080'', ''socks5://b:1080''}"
    by code_simp
  show ?thesis
    by (intro conjI inv g r b1 b2 b3 t1 t2 t3 t5 t4)
qed

text \<open>
  Claim C2 as stated fails for a 2xx status other than 200: every endpoint answers with
  status 201 and a body that is not blocked, the endpoints are marked bad and \<open>fetch\<close>
  raises \<open>ProxyFailureError\<close>.
\<close>

theorem fetch_status_201_counterexample:
  "response_at world_201 0 ''socks5://a:1080'' = Response 201 ''ok'' \<and>
   \<not> is_search_blocked ''ok'' \<and>
   fst (fetch world_201 ''https://example.com/'' True three_proxies)
     = Inl (ProxyFailureError ''https://example.com/''
              (AllAttemptsFailed 3 0 3 (Some (HTTP 201)))) \<and>
   ''socks5://a:1080'' \<in> bad_proxies (snd (fetch world_201 ''https://example.com/'' True three_proxies))"
  by code_simp

text \<open>
  Claim C3, as amended. For a URL that contains \<open>duckduckgo.com\<close> (in any case), \<open>fetch\<close>
  never returns a body that matches the block signatures. In a state that satisfies the
  invariant, when the response of an attempt has status 200: for such a URL and a body
  that matches the block signatures, the endpoint, not quarantined before, is added to
  the quarantine set and the loop goes on with the next attempt, recording the block as
  the last error; for a URL that does not contain \<open>duckduckgo.com\<close> the body is not
  checked, and the loop returns it at once, blocked or not. Over a whole call for such a
  URL: when the first \<open>k\<close> attempts get status 200 with a blocked body and attempt \<open>k\<close>,
  within the budget, status 200 with a body that is not blocked, each of the \<open>k\<close>
  endpoints is marked bad and \<open>fetch\<close> returns the body of attempt \<open>k\<close>.
\<close>

theorem fetch_skips_blocked_body:
  "(is_duckduckgo u \<and> fst (fetch w u prefer_fast s) = Inr b \<longrightarrow> \<not> is_search_blocked b) \<and>
   (manager_inv s \<and>
    get_proxy (coin_at w i) (pick_at w i) prefer_fast s = Inr (Some p, s1) \<and>
    response_at w i p = Response 200 reply \<longrightarrow>
      (is_duckduckgo u \<and> is_search_blocked reply \<longrightarrow>
         fetch_loop w u prefer_fast (Suc n) i last_err s =
           fetch_loop w u prefer_fast n (Suc i) (Some Blocked) (mark_proxy_bad p s1) \<and>
         p \<notin> bad_proxies s1 \<and>
         bad_proxies (mark_proxy_bad p s1) = insert p (bad_proxies s1) \<and>
         proxies_marked_bad (stats (mark_proxy_bad p s1)) = proxies_marked_bad (stats s) + 1) \<and>
      (\<not> is_duckduckgo u \<longrightarrow>
         fetch_loop w u prefer_fast (Suc n) i last_err s = (Inr reply, count_success s1) \<and>
         bad_proxies (count_success s1) = bad_proxies s1)) \<and>
   (is_duckduckgo u \<and> manager_inv s \<and> proxies s \<noteq> [] \<and> k < nat (max_retries s) \<and>
    (\<forall>j<k. \<forall>p. \<exists>blocked. response_at w j p = Response 200 blocked \<and>
                            is_search_blocked blocked) \<and>
    (\<forall>p. response_at w k p = Response 200 body) \<and> \<not> is_search_blocked body
    \<longrightarrow> fst (fetch w u prefer_fast s) = Inr body \<and>
        proxies_marked_bad (stats (snd (fetch w u prefer_fast s)))
          = proxies_marked_bad (stats s) + int k)"
proof (intro conjI impI)
  assume "is_duckduckgo u \<and> fst (fetch w u prefer_fast s) = Inr b"
  then show "\<not> is_search_blocked b"
    using fetch_run_blocked [of u w prefer_fast s b] by blast
next
  assume a: "manager_inv s \<and>
    get_proxy (coin_at w i) (pick_at w i) prefer_fast s = Inr (Some p, s1) \<and>
    response_at w i p = Response 200 reply"
    and b: "is_duckduckgo u \<and> is_search_blocked reply"
  from a have inv: "manager_inv s"
      and g: "get_proxy (coin_at w i) (pick_at w i) prefer_fast s = Inr (Some p, s1)"
      and r: "response_at w i p = Response 200 reply"
    by blast+
  note q = fetch_loop_quarantine_step [OF inv g]
  show "fetch_loop w u prefer_fast (Suc n) i last_err s =
           fetch_loop w u prefer_fast n (Suc i) (Some Blocked) (mark_proxy_bad p s1)"
    using q(5) r b by blast
  show "p \<notin> bad_proxies s1" by (rule q(1))
  show "bad_proxies (mark_proxy_bad p s1) = insert p (bad_proxies s1)" by (rule q(2))
  show "proxies_marked_bad (stats (mark_proxy_bad p s1)) = proxies_marked_bad (stats s) + 1"
    by (rule q(3))
next
  assume a: "manager_inv s \<and>
    get_proxy (coin_at w i) (pick_at w i) prefer_fast s = Inr (Some p, s1) \<and>
    response_at w i p = Response 200 reply"
    and b: "\<not> is_duckduckgo u"
  from a have inv: "manager_inv s"
      and g: "get_proxy (coin_at w i) (pick_at w i) prefer_fast s = Inr (Some p, s1)"
      and r: "response_at w i p = Response 200 reply"
    by blast+
  from b have nb: "\<not> (is_duckduckgo u \<and> is_search_blocked reply)" by simp
  show "fetch_loop w u prefer_fast (Suc n) i last_err s = (Inr reply, count_success s1)"
    by (rule fetch_loop_success_step(1) [OF inv g r nb])
  show "bad_proxies (count_success s1) = bad_proxies s1"
    by (rule fetch_loop_success_step(3) [OF inv g r nb])
next
  assume a: "is_duckduckgo u \<and> manager_inv s \<and> proxies s \<noteq> [] \<and> k < nat (max_retries s) \<and>
    (\<forall>j<k. \<forall>p. \<exists>blocked. response_at w j p = Response 200 blocked \<and>
                            is_search_blocked blocked) \<and>
    (\<forall>p. response_at w k p = Response 200 body) \<and> \<not> is_search_blocked body"
  then have d: "is_duckduckgo u" by blast
  note t = fetch_run_blocked [OF d, of w prefer_fast s b k body]
  show "fst (fetch w u prefer_fast s) = Inr body" using t a by blast
  show "proxies_marked_bad (stats (snd (fetch w u prefer_fast s)))
          = proxies_marked_bad (stats s) + int k" using t a by blast
qed

theorem fetch_skips_blocked_body_witness:
  "is_duckduckgo ''https://DuckDuckGo.com/html/?q=x'' \<and>
   is_search_blocked ''<html>CAPTCHA required</html>'' \<and>
   manager_inv three_proxies \<and>
   get_proxy (coin_at world_blocked_then_ok 0) (pick_at world_blocked_then_ok 0) True three_proxies
     = Inr (Some ''socks5://a:1080'', three_proxies) \<and>
   response_at world_blocked_then_ok 0 ''socks5://a:1080''
     = Response 200 ''<html>CAPTCHA required</html>'' \<and>
   bad_proxies (mark_proxy_bad ''socks5://a:1080'' three_proxies) = {''socks5://a:1080''} \<and>
   fetch_loop world_blocked_then_ok ''https://DuckDuckGo.com/html/?q=x'' True (Suc 2) 0 None
       three_proxies
     = fetch_loop world_blocked_then_ok ''https://DuckDuckGo.com/html/?q=x'' True 2 (Suc 0)
         (Some Blocked) (mark_proxy_bad ''socks5://a:1080'' three_proxies) \<and>
   \<not> is_duckduckgo ''https://example.com/'' \<and>
   fetch_loop world_blocked_then_ok ''https://example.com/'' True (Suc 2) 0 None three_proxies
     = (Inr ''<html>CAPTCHA required</html>'', count_success three_proxies) \<and>
   fst (fetch world_blocked_then_ok ''https://DuckDuckGo.com/html/?q=x'' True three_proxies)
     = Inr ''<html>results</html>'' \<and>
   proxies_marked_bad (stats (snd
     (fetch world_blocked_then_ok ''https://DuckDuckGo.com/html/?q=x'' True three_proxies))) = 1 \<and>
   bad_proxies (snd
     (fetch world_blocked_then_ok ''https://DuckDuckGo.com/html/?q=x'' True three_proxies))
     = {''socks5://a:1080''}"
proof -
  let ?a = "''socks5://a:1080''"
  let ?d = "''https://DuckDuckGo.com/html/?q=x''"
  let ?c = "''<html>CAPTCHA required</html>''"
  have d: "is_duckduckgo ?d" by code_simp
  have nd: "\<not> is_duckduckgo ''https://example.com/''" by code_simp
  have b: "is_search_blocked ?c" by code_simp
  have nb: "\<not> is_search_blocked ''<html>results</html>''" by code_simp
  have inv: "manager_inv three_proxies" by code_simp
  have g: "get_proxy (coin_at world_blocked_then_ok 0) (pick_at world_blocked_then_ok 0) True
             three_proxies = Inr (Some ?a, three_proxies)" by code_simp
  have r: "response_at world_blocked_then_ok 0 ?a = Response 200 ?c"
    by (simp add: world_blocked_then_ok_def)
  have z: "bad_proxies three_proxies = {}" "proxies_marked_bad (stats three_proxies) = 0"
    by (simp_all add: three_proxies_def)
  note st1 = fetch_skips_blocked_body [where u = "?d" and w = world_blocked_then_ok and i = 0
      and prefer_fast = True and s = three_proxies and p = "?a" and ?s1.0 = three_proxies
      and reply = "?c" and n = 2 and last_err = None]
  have q: "manager_inv three_proxies \<and>
      get_proxy (coin_at world_blocked_then_ok 0) (pick_at world_blocked_then_ok 0) True
        three_proxies = Inr (Some ?a, three_proxies) \<and>
      response_at world_blocked_then_ok 0 ?a = Response 200 ?c"
    by (intro conjI inv g r)
  note p1 = st1 [THEN conjunct2, THEN conjunct1, THEN mp, OF q, THEN conjunct1, THEN mp,
      OF conjI [OF d b]]
  have b1: "bad_proxies (mark_proxy_bad ?a three_proxies) = {?a}"
    using p1 [THEN conjunct2, THEN conjunct2, THEN conjunct1] unfolding z(1) .
  have b2: "fetch_loop world_blocked_then_ok ?d True (Suc 2) 0 None three_proxies
     = fetch_loop world_blocked_then_ok ?d True 2 (Suc 0) (Some Blocked)
         (mark_proxy_bad ?a three_proxies)"
    using p1 [THEN conjunct1] .
  note st2 = fetch_skips_blocked_body [where u = "''https://example.com/''"
      and w = world_blocked_then_ok and i = 0
      and prefer_fast = True and s = three_proxies and p = "?a" and ?s1.0 = three_proxies
      and reply = "?c" and n = 2 and last_err = None]
  have b3: "fetch_loop world_blocked_then_ok ''https://example.com/'' True (Suc 2) 0 None
              three_proxies = (Inr ?c, count_success three_proxies)"
    using st2 [THEN conjunct2, THEN conjunct1, THEN mp, OF q, THEN conjunct2, THEN mp, OF nd,
        THEN conjunct1] .
  have h: "proxies three_proxies \<noteq> [] \<and> 1 < nat (max_retries three_proxies) \<and>
      (\<forall>j<1. \<forall>p. \<exists>blocked. response_at world_blocked_then_ok j p = Response 200 blocked \<and>
                 is_search_blocked blocked) \<and>
      (\<forall>p. response_at world_blocked_then_ok 1 p = Response 200 ''<html>results</html>'')"
    using b by (simp add: world_blocked_then_ok_def three_proxies_def)
  note st3 = fetch_skips_blocked_body [where u = "?d" and w = world_blocked_then_ok
      and prefer_fast = True and s = three_proxies and k = 1 and body = "''<html>results</html>''"]
  have t: "fst (fetch world_blocked_then_ok ?d True three_proxies) = Inr ''<html>results</html>'' \<and>
        proxies_marked_bad (stats (snd (fetch world_blocked_then_ok ?d True three_proxies)))
          = proxies_marked_bad (stats three_proxies) + int 1"
  proof (rule st3 [THEN conjunct2, THEN conjunct2, THEN mp])
    show "is_duckduckgo ?d \<and> manager_inv three_proxies \<and> proxies three_proxies \<noteq> [] \<and>
      1 < nat (max_retries three_proxies) \<and>
      (\<forall>j<1. \<forall>p. \<exists>blocked. response_at world_blocked_then_ok j p = Response 200 blocked \<and>
                 is_search_blocked blocked) \<and>
      (\<forall>p. response_at world_blocked_then_ok 1 p = Response 200 ''<html>results</html>'') \<and>
      \<not> is_search_blocked ''<html>results</html>''"
      using d inv h nb by (intro conjI) blast+
  qed
  have t1: "fst (fetch world_blocked_then_ok ?d True three_proxies) = Inr ''<html>results</html>''"
    using t by (rule conjunct1)
  have t2: "proxies_marked_bad (stats (snd
     (fetch world_blocked_then_ok ?d True three_proxies))) = 1"
    using t z(2) by simp
  have t3: "bad_proxies (snd (fetch world_blocked_then_ok ?d True three_proxies)) = {?a}"
    by code_simp
  show ?thesis
    by (intro conjI d b inv g r b1 b2 nd b3 t1 t2 t3)
qed

text \<open>
  Claim C3 as stated fails for a URL that does not contain \<open>duckduckgo.com\<close>: a body that
  matches the block signatures is returned as a success and no endpoint is marked bad.
\<close>

theorem fetch_blocked_body_counterexample:
  "is_search_blocked ''captcha'' \<and>
   response_at world_captcha 0 ''socks5://a:1080'' = Response 200 ''captcha'' \<and>
   fst (fetch world_captcha ''https://example.com/'' True three_proxies) = Inr ''captcha'' \<and>
   bad_proxies (snd (fetch world_captcha ''https://example.com/'' True three_proxies)) = {}"
  by code_simp

section \<open>Link extraction and page scraping\<close>

lemma collect_links_take:
  assumes "int (length out) < max_links"
  shows "collect_links lib max_links as out =
           out @ map (\<lambda>a. link_of_anchor lib (the (href a)) a)
                     (take (nat max_links - length out) (filter has_href as))"
  using assms
proof (induction as arbitrary: out)
  case Nil
  then show ?case by simp
next
  case (Cons a as)
  show ?case
  proof (cases "has_href a")
    case False
    then show ?thesis
      using Cons by (auto simp: has_href_def split: option.splits)
  next
    case True
    then obtain h where h: "href a = Some h" "h \<noteq> []"
      by (auto simp: has_href_def split: option.splits)
    from Cons.prems obtain d where d: "nat max_links - length out = Suc d"
      by (cases "nat max_links - length out") auto
    show ?thesis
    proof (cases "int (length (out @ [link_of_anchor lib h a])) \<ge> max_links")
      case True
      with d have "d = 0" by auto
      with True h d show ?thesis by (simp add: True has_href_def Let_def)
    next
      case False
      then have lt: "int (length (out @ [link_of_anchor lib h a])) < max_links" by simp
      have "nat max_links - length (out @ [link_of_anchor lib h a]) = d"
        using d by simp
      with Cons.IH [OF lt] h False d show ?thesis
        by (simp add: has_href_def Let_def)
    qed
  qed
qed

lemma extract_links_capped:
  assumes "1 \<le> max_links" "extract_links lib html max_links = Inr out"
  shows "int (length out) \<le> max_links"
proof -
  have "int (length (collect_links lib max_links as [])) \<le> max_links" for as
    using assms(1) collect_links_take [of "[]" max_links lib as] by simp
  with assms show ?thesis
    by (auto simp: extract_links_def Let_def split: if_splits)
qed

text \<open>
  Claim C4 fails on the code for a cap that is not positive: the test
  \<open>len(out) >= max_links\<close> comes after the first \<open>append\<close>, so with \<open>max_links = 0\<close> a
  page with results yields one entry.
\<close>

theorem extract_links_zero_cap:
  "extract_links example_lib ''<html>results</html>'' 0 =
     Inr [\<lparr>link_url = ''https://example.com/a'', link_title = ''A'',
            link_snippet = ''about a''\<rparr>]"
  by code_simp

text \<open>
  Claim C10. A text of fewer than \<open>min_words\<close> words, five by default, is never
  navigational content, whatever phrases it holds. In the scan of
  \<open>extract_relevant_content\<close> such a text is kept exactly when it has at least ten
  characters, holds a keyword and was not seen before.
\<close>

theorem short_text_not_navigational:
  assumes "int (length (py_split text)) < min_words"
  shows "\<not> is_navigational_content text min_words \<and>
         (min_words = 5 \<longrightarrow>
          scan_paragraphs max_chars [text] (useful, seen, total_length) =
            (if 10 \<le> length text \<and> contains_keywords (lower text) KEYWORDS \<and> text \<notin> seen
             then (useful @ [text], insert text seen, total_length + int (length text))
             else (useful, seen, total_length)))"
  using assms by (auto simp: is_navigational_content_def Let_def)

theorem short_text_not_navigational_witness:
  "int (length (py_split ''login to our services'')) < 5 \<and>
   py_in ''login'' (lower ''login to our services'') \<and>
   \<not> is_navigational_content ''login to our services'' 5 \<and>
   scan_paragraphs 2000 [''login to our services''] ([], {}, 0) =
     ([''login to our services''], {''login to our services''}, 21) \<and>
   is_navigational_content ''please login to our services'' 5"
proof -
  have a: "int (length (py_split ''login to our services'')) < 5" by code_simp
  have b: "py_in ''login'' (lower ''login to our services'')" by code_simp
  have c: "contains_keywords (lower ''login to our services'') KEYWORDS" by code_simp
  have d: "is_navigational_content ''please login to our services'' 5" by code_simp
  show ?thesis
    using short_text_not_navigational [OF a, of 2000 "[]" "{}" 0] a b c d by simp
qed

lemma slice_to_length: "0 \<le> m \<Longrightarrow> int (length (slice_to m s)) \<le> m"
  by (simp add: slice_to_def)

lemma extract_relevant_content_bounded:
  assumes "extract_relevant_content lib html max_chars = Inr c" "0 \<le> max_chars"
  shows "int (length c) \<le> max_chars"
  using assms slice_to_length [OF assms(2)]
  by (auto simp: extract_relevant_content_def Let_def split: if_splits)

lemma scrape_single_link_Some:
  assumes "scrape_single_link lib a b l = Some p"
  shows "page_url p = link_url l \<and> page_title p = link_title l \<and>
         page_snippet p = link_snippet l \<and> page_content p \<noteq> [] \<and>
         length (page_content p) \<le> 2000"
proof -
  from assms obtain c where c:
      "extract_relevant_content lib (fetch_with_session lib a b) 2000 = Inr c" "c \<noteq> []"
      "p = \<lparr>page_url = link_url l, page_title = link_title l,
            page_snippet = link_snippet l, page_content = c\<rparr>"
    by (auto simp: scrape_single_link_def Let_def split: if_splits sum.splits)
  from extract_relevant_content_bounded [OF c(1)] have "length c \<le> 2000" by simp
  with c show ?thesis by simp
qed

lemma scrape_single_link_failure:
  assumes "fetch_with_session lib a b = [] \<or>
           isl (extract_relevant_content lib (fetch_with_session lib a b) 2000)"
  shows "scrape_single_link lib a b l = None"
  using assms by (auto simp: scrape_single_link_def Let_def split: sum.splits)

lemma fetch_with_session_failure:
  "fetch_with_session lib PageError b = []"
  "fetch_with_session lib PageTimeout PageTimeout = []"
  "fetch_with_session lib PageTimeout PageError = []"
  "status_code \<noteq> 200 \<Longrightarrow> fetch_with_session lib (PageResponse status_code cl t) b = []"
  "py_int lib c = Some n \<Longrightarrow> 2000000 < n \<Longrightarrow> c \<noteq> [] \<Longrightarrow>
     fetch_with_session lib (PageResponse status_code (Some c) t) b = []"
  by (auto simp: fetch_with_session_def read_page_def split: option.splits)

text \<open>
  Claim C9. \<open>scrape_links_content\<close> raises only the executor's \<open>ValueError\<close>, for a worker
  count that is not positive with a non-empty list of links. Otherwise it returns the
  pages of the tasks that produced one, in the order of completion: every page has the
  URL of an input link and a non-empty content of at most 2000 characters. A link whose
  fetch returns nothing, or whose extraction raises, produces no page.
\<close>

theorem scrape_links_content_subset:
  "(case scrape_links_content lib pages finish links max_workers of
      Inl x \<Rightarrow> links \<noteq> [] \<and> max_workers \<le> 0
    | Inr out \<Rightarrow>
        (\<forall>p \<in> set out. page_url p \<in> link_url ` set links \<and>
                        page_content p \<noteq> [] \<and> length (page_content p) \<le> 2000) \<and>
        mset out = mset (List.map_filter
                           (\<lambda>i. scrape_single_link lib (fst (pages i)) (snd (pages i)) (links ! i))
                           [0..<length links])) \<and>
   (fetch_with_session lib a b = [] \<or>
    isl (extract_relevant_content lib (fetch_with_session lib a b) 2000)
      \<longrightarrow> scrape_single_link lib a b l = None)"
proof (intro conjI impI)
  let ?f = "\<lambda>i. scrape_single_link lib (fst (pages i)) (snd (pages i)) (links ! i)"
  show "case scrape_links_content lib pages finish links max_workers of
      Inl x \<Rightarrow> links \<noteq> [] \<and> max_workers \<le> 0
    | Inr out \<Rightarrow>
        (\<forall>p \<in> set out. page_url p \<in> link_url ` set links \<and>
                        page_content p \<noteq> [] \<and> length (page_content p) \<le> 2000) \<and>
        mset out = mset (List.map_filter ?f [0..<length links])"
  proof (cases "links = []")
    case True
    then show ?thesis by (simp add: scrape_links_content_def List.map_filter_def)
  next
    case ne: False
    show ?thesis
    proof (cases "min max_workers (int (length links)) \<le> 0")
      case True
      with ne show ?thesis by (simp add: scrape_links_content_def min_def split: if_splits)
    next
      case False
      let ?order = "sort_key finish [0..<length links]"
      have out: "scrape_links_content lib pages finish links max_workers
                   = Inr (List.map_filter ?f ?order)"
        using ne False by (simp add: scrape_links_content_def)
      have pages: "page_url p \<in> link_url ` set links \<and> page_content p \<noteq> [] \<and>
                   length (page_content p) \<le> 2000"
        if "p \<in> set (List.map_filter ?f ?order)" for p
      proof -
        from that obtain i where i: "i < length links" "?f i = Some p"
          by (auto simp: List.map_filter_def)
        have "links ! i \<in> set links" using i(1) by simp
        then have "link_url (links ! i) \<in> link_url ` set links" by (rule imageI)
        with scrape_single_link_Some [OF i(2)] show ?thesis by simp
      qed
      have "mset (List.map_filter ?f ?order) = mset (List.map_filter ?f [0..<length links])"
        by (simp add: List.map_filter_def)
      with out pages show ?thesis by simp
    qed
  qed
next
  assume "fetch_with_session lib a b = [] \<or>
    isl (extract_relevant_content lib (fetch_with_session lib a b) 2000)"
  then show "scrape_single_link lib a b l = None"
    by (rule scrape_single_link_failure)
qed

theorem scrape_links_content_subset_witness:
  "scrape_links_content example_lib example_pages (\<lambda>i. 3 - i) example_links 10 =
     Inr [\<lparr>page_url = ''https://example.com/a'', page_title = ''A'', page_snippet = ''about a'',
           page_content = ''We offer cloud services to clients worldwide.''\<rparr>] \<and>
   fetch_with_session example_lib PageTimeout PageTimeout = [] \<and>
   scrape_single_link example_lib PageTimeout PageTimeout (example_links ! 1) = None \<and>
   isl (extract_relevant_content example_lib ''<bad>'' 2000) \<and>
   scrape_links_content example_lib example_pages (\<lambda>i. i) example_links 0 = Inl ValueError"
proof -
  have a: "scrape_links_content example_lib example_pages (\<lambda>i. 3 - i) example_links 10 =
     Inr [\<lparr>page_url = ''https://example.com/a'', page_title = ''A'', page_snippet = ''about a'',
           page_content = ''We offer cloud services to clients worldwide.''\<rparr>]"
    by code_simp
  have b: "fetch_with_session example_lib PageTimeout PageTimeout = []" by code_simp
  have c: "isl (extract_relevant_content example_lib ''<bad>'' 2000)" by code_simp
  have d: "scrape_links_content example_lib example_pages (\<lambda>i. i) example_links 0 = Inl ValueError"
    by code_simp
  note t = scrape_links_content_subset [where lib = example_lib and pages = example_pages
      and finish = "\<lambda>i. 3 - i" and links = example_links and max_workers = 10
      and a = PageTimeout and b = PageTimeout and l = "example_links ! 1"]
  have e: "scrape_single_link example_lib PageTimeout PageTimeout (example_links ! 1) = None"
    using t b by blast
  show ?thesis by (intro conjI a b c d e)
qed

section \<open>Persistence and reload\<close>

lemma canonical_rowE:
  assumes "canonical_row r"
  obtains v1 v2 v3 v4 v5 v6 v7 v8 where
    "r = [(''ip'', Some v1), (''port'', Some v2), (''country'', Some v3), (''city'', Some v4),
          (''isp'', Some v5), (''response_time_ms'', Some v6), (''status'', Some v7),
          (''tested_at'', Some v8)]"
proof -
  from assms have m: "map fst r = fieldnames" and a: "list_all (\<lambda>kv. snd kv \<noteq> None) r"
    by (simp_all add: canonical_row_def)
  from m obtain c1 c2 c3 c4 c5 c6 c7 c8 where
    r: "r = [(''ip'', c1), (''port'', c2), (''country'', c3), (''city'', c4),
          (''isp'', c5), (''response_time_ms'', c6), (''status'', c7), (''tested_at'', c8)]"
    unfolding fieldnames_def by (auto simp: map_eq_Cons_conv)
  with a show ?thesis using that by auto
qed

lemma written_row_canonical: "canonical_row r \<Longrightarrow> written_row r = r"
  by (erule canonical_rowE) (simp add: written_row_def written_cell_def fieldnames_def)

lemma canonical_row_failed:
  assumes "canonical_row r"
  shows "canonical_row (AList.update ''status'' (Some ''failed'') r)"
    and "AList.update ''status'' (Some ''failed'') r \<noteq> []"
    and "read_row e (AList.update ''status'' (Some ''failed'') r) = Inr None"
    and "r \<noteq> []"
    and "\<not> list_ex (\<lambda>k. k \<notin> set fieldnames) (map fst r)"
proof -
  have s: "strip ''failed'' = ''failed''" by (simp add: strip_def isspace_def)
  from assms show "canonical_row (AList.update ''status'' (Some ''failed'') r)"
    by (elim canonical_rowE) (simp add: canonical_row_def fieldnames_def)
  from assms show "AList.update ''status'' (Some ''failed'') r \<noteq> []"
    by (elim canonical_rowE) simp
  from assms show "read_row e (AList.update ''status'' (Some ''failed'') r) = Inr None"
    by (elim canonical_rowE) (simp add: read_row_def get_strip_def row_get_def s)
  from assms show "r \<noteq> []" by (elim canonical_rowE) simp
  from assms show "\<not> list_ex (\<lambda>k. k \<notin> set fieldnames) (map fst r)"
    by (simp add: canonical_row_def list_ex_iff)
qed

lemma set_failed_idem: "set_failed (set_failed q) = set_failed q"
  by (cases "row q") (auto simp: set_failed_def)

lemma mark_all_mark_first:
  assumes "\<forall>q \<in> set ps. row q \<noteq> None"
  shows "map (\<lambda>q. if row q \<noteq> None \<and> url q \<in> {p} then set_failed q else q) (mark_first p ps)
           = mark_all p ps"
  using assms
proof (induction ps)
  case Nil
  then show ?case by (simp add: mark_all_def)
next
  case (Cons q ps)
  then have ih: "map (\<lambda>q. if row q \<noteq> None \<and> url q \<in> {p} then set_failed q else q)
                     (mark_first p ps) = mark_all p ps"
    by simp
  have all: "map (\<lambda>q. if row q \<noteq> None \<and> url q \<in> {p} then set_failed q else q) ps
               = mark_all p ps"
    using Cons.prems by (simp add: mark_all_def)
  show ?case
  proof (cases "url q = p")
    case True
    with Cons.prems all show ?thesis
      by (simp add: mark_all_def set_failed_idem)
  next
    case False
    with ih show ?thesis by (simp add: mark_all_def)
  qed
qed

lemma catalogue_entry_row:
  assumes "catalogue_entry e q"
  obtains r where "row q = Some r" "canonical_row r" "read_row e r = Inr (Some q)"
  using assms by (auto simp: catalogue_entry_def split: option.splits)

lemma read_rows_marked:
  assumes "\<forall>q \<in> set ps. catalogue_entry e q"
  shows "read_rows e (map (\<lambda>q. the (row q)) (mark_all p ps))
           = Inr (filter (\<lambda>q. url q \<noteq> p) ps)"
  using assms
proof (induction ps)
  case Nil
  then show ?case by (simp add: mark_all_def)
next
  case (Cons q ps)
  then have ih: "read_rows e (map (\<lambda>q. the (row q)) (mark_all p ps))
           = Inr (filter (\<lambda>q. url q \<noteq> p) ps)"
    by simp
  from Cons.prems obtain r where r: "row q = Some r" "canonical_row r"
      "read_row e r = Inr (Some q)"
    using catalogue_entry_row by (metis list.set_intros(1))
  show ?case
  proof (cases "url q = p")
    case True
    have "the (row (set_failed q)) = AList.update ''status'' (Some ''failed'') r"
      using r canonical_row_failed(4) [OF r(2)] by (simp add: set_failed_def)
    then show ?thesis
      using True ih canonical_row_failed(3) [OF r(2), of e]
      by (simp add: mark_all_def)
  next
    case False
    then show ?thesis
      using ih r by (simp add: mark_all_def)
  qed
qed

lemma written_rows_marked:
  assumes "\<forall>q \<in> set ps. catalogue_entry e q"
  shows "concat (map (\<lambda>q. case row q of None \<Rightarrow> [] | Some r \<Rightarrow> if r \<noteq> [] then [r] else [])
                     (mark_all p ps))
           = map (\<lambda>q. the (row q)) (mark_all p ps) \<and>
         list_all canonical_row (map (\<lambda>q. the (row q)) (mark_all p ps))"
  using assms
proof (induction ps)
  case Nil
  show ?case by (simp add: mark_all_def)
next
  case (Cons q ps)
  from Cons.prems obtain r where r: "row q = Some r" "canonical_row r"
    using catalogue_entry_row by (metis list.set_intros(1))
  have f: "row (set_failed q) = Some (AList.update ''status'' (Some ''failed'') r)"
    using r canonical_row_failed(4) [OF r(2)] by (simp add: set_failed_def)
  from Cons have ih:
    "concat (map (\<lambda>q. case row q of None \<Rightarrow> [] | Some r \<Rightarrow> if r \<noteq> [] then [r] else [])
                     (mark_all p ps))
           = map (\<lambda>q. the (row q)) (mark_all p ps)"
    "list_all canonical_row (map (\<lambda>q. the (row q)) (mark_all p ps))"
    by simp_all
  show ?case
    using ih r f canonical_row_failed(1,2,4) [OF r(2)]
    by (simp add: mark_all_def)
qed

lemma find_url:
  assumes "p \<in> url ` set ps"
  obtains q where "find (\<lambda>q. url q = p) ps = Some q" "q \<in> set ps"
proof -
  from assms have "\<exists>q. find (\<lambda>q. url q = p) ps = Some q"
    by (cases "find (\<lambda>q. url q = p) ps") (auto simp: find_None_iff)
  then obtain q where q: "find (\<lambda>q. url q = p) ps = Some q" by blast
  then have "q \<in> set ps" by (auto simp: find_Some_iff)
  with q that show ?thesis by blast
qed

lemma row_mark_first:
  "\<forall>q \<in> set ps. row q \<noteq> None \<Longrightarrow> \<forall>q \<in> set (mark_first p ps). row q \<noteq> None"
  by (induction ps) (simp_all del: not_None_eq)

lemma map_written_row_canonical:
  "list_all canonical_row rs \<Longrightarrow> map written_row rs = rs"
  by (induction rs) (simp_all add: written_row_canonical)

lemma canonical_keys_ok:
  "list_all canonical_row rs \<Longrightarrow>
     \<not> list_ex (\<lambda>r. list_ex (\<lambda>k. k \<notin> set fieldnames) (map fst r)) rs"
  by (induction rs) (simp_all add: canonical_row_failed(5))

lemma catalogue_entry_has_row: "catalogue_entry e q \<Longrightarrow> row q \<noteq> None"
  by (auto simp: catalogue_entry_def split: option.splits)

lemma mark_proxy_bad_catalogue:
  assumes ce: "\<forall>q \<in> set (proxy_data s). catalogue_entry e q"
      and bad: "bad_proxies s = {}"
      and p: "p \<in> url ` set (proxy_data s)" "p \<noteq> []"
  shows "csv_file (mark_proxy_bad p s)
           = Some (map (\<lambda>q. the (row q)) (mark_all p (proxy_data s)))"
proof -
  let ?D = "proxy_data s"
  obtain q0 where q0: "find (\<lambda>q. url q = p) ?D = Some q0" "q0 \<in> set ?D"
    using find_url [OF p(1)] by blast
  have rows: "\<forall>q \<in> set ?D. row q \<noteq> None"
    using ce catalogue_entry_has_row by blast
  have r0: "row q0 \<noteq> None" using rows q0(2) by blast
  define s1 where "s1 = s\<lparr>bad_proxies := insert p (bad_proxies s),
                   stats := (stats s)\<lparr>proxies_marked_bad := proxies_marked_bad (stats s) + 1\<rparr>,
                   proxy_data := mark_first p (proxy_data s)\<rparr>"
  have m: "mark_proxy_bad p s = snd (save_proxies_to_csv s1)"
    using p(2) bad q0(1) r0 by (simp add: mark_proxy_bad_def Let_def s1_def)
  have s1: "proxy_data s1 = mark_first p ?D" "bad_proxies s1 = {p}"
    by (simp_all add: s1_def bad)
  have ne: "?D \<noteq> []" using q0(2) by auto
  then have "mark_first p ?D \<noteq> []" by (cases ?D) auto
  moreover have "\<forall>q \<in> set (mark_first p ?D). row q \<noteq> None"
    using rows by (rule row_mark_first)
  ultimately have f: "filter (\<lambda>q. row q \<noteq> None) (proxy_data s1) \<noteq> []"
    unfolding s1 by (cases "mark_first p ?D") auto
  have pd: "map (\<lambda>q. if row q \<noteq> None \<and> url q \<in> bad_proxies s1 then set_failed q else q)
               (proxy_data s1) = mark_all p ?D"
    unfolding s1 using mark_all_mark_first [OF rows] .
  note w = written_rows_marked [OF ce, of p]
  have k: "\<not> list_ex (\<lambda>r. list_ex (\<lambda>k. k \<notin> set fieldnames) (map fst r))
               (map (\<lambda>q. the (row q)) (mark_all p ?D))"
    using w canonical_keys_ok by blast
  have wr: "map written_row (map (\<lambda>q. the (row q)) (mark_all p ?D))
              = map (\<lambda>q. the (row q)) (mark_all p ?D)"
    using w map_written_row_canonical by blast
  have "csv_file (snd (save_proxies_to_csv s1))
          = Some (map (\<lambda>q. the (row q)) (mark_all p ?D))"
    using f k wr w
    by (simp add: save_proxies_to_csv_def Let_def pd del: map_map not_None_eq)
  with m show ?thesis by simp
qed

lemma init_catalogue:
  assumes "\<forall>r \<in> set rows. canonical_row r \<and> row_readable e r \<and>
             (eligible r \<longrightarrow> get_response_time e r \<noteq> Inr NaN)"
      and "\<exists>r \<in> set rows. eligible r"
  shows "\<forall>q \<in> set (load_proxies e (Some rows)). catalogue_entry e q"
    and "load_proxies e (Some rows) \<noteq> []"
    and "NaN \<notin> set (map response_time_ms (load_proxies e (Some rows)))"
    and "sorted (map (\<lambda>q. float_key (response_time_ms q)) (load_proxies e (Some rows)))"
proof -
  let ?k = "\<lambda>q. float_key (response_time_ms q)"
  from assms(1) have rd: "\<forall>r \<in> set rows. row_readable e r" by blast
  obtain ps where ps: "read_rows e rows = Inr ps"
      "map row ps = map Some (filter eligible rows)"
    using read_rows_readable [OF rd] by blast
  from assms(2) have "filter eligible rows \<noteq> []" by (simp add: filter_empty_conv)
  with ps(2) have ne: "ps \<noteq> []" by auto
  have nn: "NaN \<notin> set (map response_time_ms ps)"
    using read_rows_no_nan [OF ps(1)] assms(1) by blast
  have ld: "load_proxies e (Some rows) = sort_key ?k ps"
    using ps(1) ne by (simp add: load_proxies_def sort_by_response_time_plain [OF nn])
  have "catalogue_entry e q" if q: "q \<in> set ps" for q
  proof -
    obtain r where r: "r \<in> set rows" "read_row e r = Inr (Some q)"
      using read_rows_entries [OF ps(1) q] by blast
    with assms(1) read_row_Some(1) [OF r(2)] show ?thesis
      by (simp add: catalogue_entry_def)
  qed
  then show "\<forall>q \<in> set (load_proxies e (Some rows)). catalogue_entry e q"
    by (simp add: ld)
  have "length (sort_key ?k ps) = length ps" by simp
  with ne show "load_proxies e (Some rows) \<noteq> []"
    unfolding ld by (metis length_0_conv)
  have "set (sort_key ?k ps) = set ps" by simp
  with nn show "NaN \<notin> set (map response_time_ms (load_proxies e (Some rows)))"
    unfolding ld by simp
  show "sorted (map ?k (load_proxies e (Some rows)))"
    unfolding ld by (rule sorted_sort_key)
qed

lemma load_marked_catalogue:
  assumes ce: "\<forall>q \<in> set ps. catalogue_entry e q"
      and so: "sorted (map (\<lambda>q. float_key (response_time_ms q)) ps)"
      and nn: "NaN \<notin> set (map response_time_ms ps)"
      and other: "\<exists>q \<in> set ps. url q \<noteq> p"
  shows "load_proxies e (Some (map (\<lambda>q. the (row q)) (mark_all p ps)))
           = filter (\<lambda>q. url q \<noteq> p) ps"
proof -
  let ?k = "\<lambda>q. float_key (response_time_ms q)"
  have rr: "read_rows e (map (\<lambda>q. the (row q)) (mark_all p ps))
              = Inr (filter (\<lambda>q. url q \<noteq> p) ps)"
    using read_rows_marked [OF ce] .
  from other have ne: "filter (\<lambda>q. url q \<noteq> p) ps \<noteq> []"
    by (simp add: filter_empty_conv)
  from nn have nf: "NaN \<notin> set (map response_time_ms (filter (\<lambda>q. url q \<noteq> p) ps))"
    by auto
  have "sort_key ?k (filter (\<lambda>q. url q \<noteq> p) ps)
          = filter (\<lambda>q. url q \<noteq> p) (sort_key ?k ps)"
    by (rule filter_sort [symmetric])
  also have "sort_key ?k ps = ps"
    using so by (rule sort_key_id_if_sorted)
  finally have "sort_by_response_time e (filter (\<lambda>q. url q \<noteq> p) ps)
                  = filter (\<lambda>q. url q \<noteq> p) ps"
    by (simp only: sort_by_response_time_plain [OF nf])
  then show ?thesis
    using rr ne by (simp add: load_proxies_def)
qed

lemma rows_of_entries:
  assumes "r \<in> set (concat (map (\<lambda>p. case row p of None \<Rightarrow> []
                                       | Some r \<Rightarrow> if r \<noteq> [] then [r] else []) pd))"
  shows "\<exists>q \<in> set pd. row q = Some r"
  using assms by (auto split: option.splits if_splits)

lemma save_writes_catalogue_rows:
  "(fst (save_proxies_to_csv s) \<longrightarrow>
      (\<exists>f. csv_file (snd (save_proxies_to_csv s)) = Some f \<and>
           (\<forall>r \<in> set f. \<exists>q \<in> set (proxy_data (snd (save_proxies_to_csv s))).
                            row q \<noteq> None \<and> r = written_row (the (row q))))) \<and>
   (\<not> fst (save_proxies_to_csv s) \<longrightarrow>
      csv_file (snd (save_proxies_to_csv s)) = csv_file s)"
proof (intro conjI impI)
  define pd where "pd = map (\<lambda>p. if row p \<noteq> None \<and> url p \<in> bad_proxies s
                                  then set_failed p else p) (proxy_data s)"
  define rows where "rows = concat (map (\<lambda>p. case row p of None \<Rightarrow> []
                                       | Some r \<Rightarrow> if r \<noteq> [] then [r] else []) pd)"
  assume ok: "fst (save_proxies_to_csv s)"
  then have f: "csv_file (snd (save_proxies_to_csv s)) = Some (map written_row rows)"
      and d: "proxy_data (snd (save_proxies_to_csv s)) = pd"
    by (auto simp: save_proxies_to_csv_def Let_def pd_def rows_def split: if_splits)
  have "\<exists>q \<in> set pd. row q \<noteq> None \<and> w = written_row (the (row q))"
    if w: "w \<in> set (map written_row rows)" for w
  proof -
    from w obtain r where r: "r \<in> set rows" "w = written_row r" by auto
    from r(1) obtain q where "q \<in> set pd" "row q = Some r"
      unfolding rows_def using rows_of_entries by blast
    with r(2) show ?thesis by auto
  qed
  with f d show "\<exists>f. csv_file (snd (save_proxies_to_csv s)) = Some f \<and>
           (\<forall>r \<in> set f. \<exists>q \<in> set (proxy_data (snd (save_proxies_to_csv s))).
                            row q \<noteq> None \<and> r = written_row (the (row q)))"
    by blast
next
  assume "\<not> fst (save_proxies_to_csv s)"
  then show "csv_file (snd (save_proxies_to_csv s)) = csv_file s"
    by (auto simp: save_proxies_to_csv_def Let_def split: if_splits)
qed

text \<open>
  Claim C8, as amended. Let every row of the catalogue have exactly the eight catalogue
  fields, as text, with a latency that parses and is not nan where the row is kept, and
  let the directory be loaded from it with at least one row kept. Marking an endpoint of the
  directory bad rewrites the catalogue as the rows of the loaded records, in the order of
  the directory, with status \<open>failed\<close> on the rows of that endpoint. When a record of
  another endpoint remains, reloading gives the former directory without the records of
  that endpoint, every other record unchanged. Whenever the catalogue is written, each
  of its rows is the row of a record that has one: a record without a catalogue row is
  never written.
\<close>

theorem mark_bad_reload_roundtrip:
  assumes "\<forall>r \<in> set rows. canonical_row r \<and> row_readable e r \<and>
             (eligible r \<longrightarrow> get_response_time e r \<noteq> Inr NaN)"
      and "\<exists>r \<in> set rows. eligible r"
      and "s0 = init e (Some rows) backup retries threshold"
      and "p \<in> set (proxies s0)"
      and "\<exists>q \<in> set (proxy_data s0). url q \<noteq> p"
  shows "csv_file (mark_proxy_bad p s0)
           = Some (map (\<lambda>q. the (row q)) (mark_all p (proxy_data s0))) \<and>
         proxy_data (snd (reload_proxies e (mark_proxy_bad p s0)))
           = filter (\<lambda>q. url q \<noteq> p) (proxy_data s0) \<and>
         bad_proxies (snd (reload_proxies e (mark_proxy_bad p s0))) = {} \<and>
         (fst (save_proxies_to_csv s) \<longrightarrow>
            (\<exists>f. csv_file (snd (save_proxies_to_csv s)) = Some f \<and>
                 (\<forall>r \<in> set f. \<exists>q \<in> set (proxy_data (snd (save_proxies_to_csv s))).
                                  row q \<noteq> None \<and> r = written_row (the (row q)))))"
proof -
  have pd: "proxy_data s0 = load_proxies e (Some rows)"
      and px: "proxies s0 = map url (proxy_data s0)"
      and bad: "bad_proxies s0 = {}"
    by (simp_all add: assms(3) init_def Let_def)
  have ce: "\<forall>q \<in> set (proxy_data s0). catalogue_entry e q"
    unfolding pd using init_catalogue(1) [OF assms(1,2)] .
  have so: "sorted (map (\<lambda>q. float_key (response_time_ms q)) (proxy_data s0))"
    unfolding pd using init_catalogue(4) [OF assms(1,2)] .
  have nn: "NaN \<notin> set (map response_time_ms (proxy_data s0))"
    unfolding pd using init_catalogue(3) [OF assms(1,2)] .
  from assms(4) have pin: "p \<in> url ` set (proxy_data s0)" by (simp add: px)
  then obtain q where q: "q \<in> set (proxy_data s0)" "url q = p" by auto
  with ce obtain r where "row q = Some r" "read_row e r = Inr (Some q)"
    using catalogue_entry_row by blast
  then have pne: "p \<noteq> []" using read_row_Some(2) q(2) by blast
  have fl: "csv_file (mark_proxy_bad p s0)
           = Some (map (\<lambda>q. the (row q)) (mark_all p (proxy_data s0)))"
    using mark_proxy_bad_catalogue [OF ce bad pin pne] .
  have "load_proxies e (csv_file (mark_proxy_bad p s0))
          = filter (\<lambda>q. url q \<noteq> p) (proxy_data s0)"
    unfolding fl using load_marked_catalogue [OF ce so nn assms(5)] .
  then have rel: "proxy_data (snd (reload_proxies e (mark_proxy_bad p s0)))
           = filter (\<lambda>q. url q \<noteq> p) (proxy_data s0)"
      and b: "bad_proxies (snd (reload_proxies e (mark_proxy_bad p s0))) = {}"
    by (simp_all add: reload_proxies_def Let_def)
  show ?thesis
    using fl rel b save_writes_catalogue_rows [of s] by blast
qed

theorem mark_bad_reload_roundtrip_witness:
  "list_all (\<lambda>r. canonical_row r \<and> row_readable example_env r \<and>
                 (eligible r \<longrightarrow> get_response_time example_env r \<noteq> Inr NaN)) catalogue_abc \<and>
   eligible row_a \<and>
   proxies (init example_env (Some catalogue_abc) None 3 10)
     = [''socks5://10.0.0.2:1080'', ''socks5://10.0.0.1:1080''] \<and>
   csv_file (mark_proxy_bad ''socks5://10.0.0.1:1080''
              (init example_env (Some catalogue_abc) None 3 10))
     = Some [row_b, AList.update ''status'' (Some ''failed'') row_a] \<and>
   map row (proxy_data (snd (reload_proxies example_env
        (mark_proxy_bad ''socks5://10.0.0.1:1080''
           (init example_env (Some catalogue_abc) None 3 10)))))
     = [Some row_b] \<and>
   proxy_data (snd (reload_proxies example_env
        (mark_proxy_bad ''socks5://10.0.0.1:1080''
           (init example_env (Some catalogue_abc) None 3 10))))
     = filter (\<lambda>q. url q \<noteq> ''socks5://10.0.0.1:1080'')
         (proxy_data (init example_env (Some catalogue_abc) None 3 10))"
proof -
  let ?s0 = "init example_env (Some catalogue_abc) None 3 10"
  let ?p = "''socks5://10.0.0.1:1080''"
  have h1: "\<forall>r \<in> set catalogue_abc. canonical_row r \<and> row_readable example_env r \<and>
              (eligible r \<longrightarrow> get_response_time example_env r \<noteq> Inr NaN)"
    by code_simp
  have h1': "list_all (\<lambda>r. canonical_row r \<and> row_readable example_env r \<and>
                 (eligible r \<longrightarrow> get_response_time example_env r \<noteq> Inr NaN)) catalogue_abc"
    using h1 by (simp add: list_all_iff)
  have el: "eligible row_a" by code_simp
  have h2: "\<exists>r \<in> set catalogue_abc. eligible r"
    using el by (auto simp: catalogue_abc_def)
  have px: "proxies ?s0 = [''socks5://10.0.0.2:1080'', ''socks5://10.0.0.1:1080'']"
    by code_simp
  have h4: "?p \<in> set (proxies ?s0)" unfolding px by simp
  have rw: "map row (filter (\<lambda>q. url q \<noteq> ?p) (proxy_data ?s0)) = [Some row_b]"
    by code_simp
  have h5: "\<exists>q \<in> set (proxy_data ?s0). url q \<noteq> ?p"
    by code_simp
  have fl: "map (\<lambda>q. the (row q)) (mark_all ?p (proxy_data ?s0))
              = [row_b, AList.update ''status'' (Some ''failed'') row_a]"
    by code_simp
  note t = mark_bad_reload_roundtrip [OF h1 h2 refl h4 h5]
  have t1: "csv_file (mark_proxy_bad ?p ?s0)
              = Some [row_b, AList.update ''status'' (Some ''failed'') row_a]"
    using t fl by simp
  have t2: "proxy_data (snd (reload_proxies example_env (mark_proxy_bad ?p ?s0)))
              = filter (\<lambda>q. url q \<noteq> ?p) (proxy_data ?s0)"
    using t by blast
  have t3: "map row (proxy_data (snd (reload_proxies example_env (mark_proxy_bad ?p ?s0))))
              = [Some row_b]"
    unfolding t2 by (rule rw)
  show ?thesis
    by (intro conjI h1' el px t1 t3 t2)
qed

text \<open>
  Claim C8 as stated fails for the rows of the catalogue that were not loaded: the
  catalogue holds a row of status \<open>failed\<close> beside two working rows; after one working
  endpoint is marked bad, the rewritten catalogue holds the two loaded rows only, in the
  order of the directory, and the third row is gone.
\<close>

theorem roundtrip_drops_rows_counterexample:
  "csv_file (init example_env (Some catalogue_abc) None 3 10)
     = Some [row_a, row_b, row_c] \<and>
   csv_file (snd (reload_proxies example_env
        (mark_proxy_bad ''socks5://10.0.0.1:1080''
           (init example_env (Some catalogue_abc) None 3 10))))
     = Some [row_b, AList.update ''status'' (Some ''failed'') row_a] \<and>
   row_c \<notin> set [row_b, AList.update ''status'' (Some ''failed'') row_a]"
  by code_simp

section \<open>The invariant holds from construction on\<close>

text \<open>
  \<open>__init__\<close> and \<open>reload_proxies\<close> establish the invariant; \<open>get_proxy\<close> and
  \<open>mark_proxy_bad\<close> keep it (\<open>manager_inv_get_proxy\<close>, \<open>manager_inv_mark\<close>).
\<close>

lemma fallback_entry_url:
  assumes "fallback_entry u = Some q"
  shows "url q = u" "u \<noteq> []"
  using assms
  by (auto simp: fallback_entry_def Let_def split: if_splits)

lemma load_proxies_urls:
  assumes "q \<in> set (load_proxies e f)"
  shows "url q \<noteq> []"
proof -
  have fb: "url q \<noteq> []" if "q \<in> set (load_fallback_proxies e)"
    using that fallback_entry_url
    by (auto simp: load_fallback_proxies_def List.map_filter_def)
  show ?thesis
  proof (cases f)
    case None
    with assms fb show ?thesis by (simp add: load_proxies_def)
  next
    case (Some rows)
    show ?thesis
    proof (cases "read_rows e rows")
      case (Inl x)
      with assms Some fb show ?thesis by (simp add: load_proxies_def)
    next
      case (Inr ps)
      show ?thesis
      proof (cases "ps = []")
        case True
        with assms Some Inr fb show ?thesis by (simp add: load_proxies_def)
      next
        case False
        with assms Some Inr have "q \<in> set (sort_by_response_time e ps)"
          by (simp add: load_proxies_def)
        then have "q \<in> set ps"
          by (auto simp: sort_by_response_time_def split: if_splits)
        then show ?thesis
          using read_rows_entries [OF Inr] read_row_Some(2) by blast
      qed
    qed
  qed
qed

lemma manager_inv_init: "manager_inv (init e f backup retries threshold)"
  using load_proxies_urls
  by (auto simp: manager_inv_def init_def Let_def list_all_iff)

lemma manager_inv_reload: "manager_inv (snd (reload_proxies e s))"
  using load_proxies_urls
  by (auto simp: manager_inv_def reload_proxies_def Let_def list_all_iff)

end
